theory Spec2Isabelle
  imports Complex_Main
begin

section \<open>Python values shared by the three revisions\<close>

text \<open>
  The repository holds three revisions of one program: \<^verbatim>\<open>main-v2.py\<close> (blocking
  move loop, RPi.GPIO), \<^verbatim>\<open>main-v3.py\<close> (\<^verbatim>\<open>MotorController\<close>, pigpio) and
  \<^verbatim>\<open>main-v4.py\<close> (\<^verbatim>\<open>StepperMotor\<close> with a move thread). Constants of the model
  carry the revision as a suffix where the revisions share a name.

  Every number that reaches the motor code comes from \<^verbatim>\<open>parseInt\<close> or \<^verbatim>\<open>int(...)\<close>,
  so step counts, speeds and accelerations are Python integers (\<^typ>\<open>int\<close>).
  Python's true division \<^verbatim>\<open>/\<close> yields a float, a double. Wherever the program takes
  an integer from a float (\<^verbatim>\<open>int(s * s / (2 * a))\<close>, \<^verbatim>\<open>round(pos)\<close>, the progress
  percentage, the targets of main-v2.py) the integer depends on how the float was rounded
  (\<^verbatim>\<open>int(57 / 100 * 100)\<close> is 56, \<^verbatim>\<open>int(94952793 * 94952793 / (2 * 4398064828537))\<close>
  is 1025); there the rounding of a result to a double is a parameter \<open>fl\<close> of the
  definition, applied once for each float operation of the source, the making of a float
  from an integer included. Three roundings are used: \<open>dbl\<close> is the rounding of Python
  itself, to the nearest double with a tie going to the even significand;
  \<open>double_rounding\<close> states what the theorems on floats need of a rounding, and holds
  of \<open>dbl\<close>; and \<open>exact\<close> rounds nothing, which is what \<open>dbl\<close> does in a run whose
  floats all are doubles before they are rounded. The speed of a step is only slept: the
  state depends on whether the sleep raises, not on the duration, and the model keeps
  that quotient exact, in \<^typ>\<open>rat\<close>. Integers beyond the range of a double, on which
  Python raises \<^verbatim>\<open>OverflowError\<close>, are outside the model; the theorems on floats carry
  bounds on the size of their inputs.
\<close>

datatype py_error = ZeroDivisionError | TypeError | ValueError | CaptureError

datatype 'a outcome = Returns 'a | Raises py_error

text \<open>\<^verbatim>\<open>int(x)\<close> on a float truncates toward zero.\<close>

definition py_int :: "rat \<Rightarrow> int" where
  "py_int x = (if 0 \<le> x then \<lfloor>x\<rfloor> else \<lceil>x\<rceil>)"

text \<open>\<^verbatim>\<open>round(x)\<close> on a float rounds to the nearest integer, a tie to the even one.\<close>

definition py_round :: "rat \<Rightarrow> int" where
  "py_round x =
     (let f = \<lfloor>x\<rfloor>; d = x - of_int f
      in if d < 1 / 2 then f
         else if 1 / 2 < d then f + 1
         else if even f then f else f + 1)"


text \<open>\<^verbatim>\<open>a / b\<close> on integers: a float, or \<^verbatim>\<open>ZeroDivisionError\<close>.\<close>

definition py_truediv :: "int \<Rightarrow> int \<Rightarrow> py_error + rat" where
  "py_truediv a b = (if b = 0 then Inl ZeroDivisionError else Inr (of_int a / of_int b))"

text \<open>
  What another thread does to a move loop during one iteration: nothing, an emergency
  stop before the loop tests the flag, or an emergency stop after the test (while the
  pulse of this iteration is sent). An environment is one entry per iteration; past its
  end nothing interferes.
\<close>

datatype interference = Quiet | StopBeforeCheck | StopAfterCheck

definition next_ev :: "interference list \<Rightarrow> interference" where
  "next_ev env = (case env of [] \<Rightarrow> Quiet | e # _ \<Rightarrow> e)"

text \<open>
  How one loop iteration, a loop or a move ended: it ran to its end, it saw the
  emergency-stop flag and left, it was turned down at entry because of the flag, or an
  exception left it.
\<close>

datatype run_result = Completed | Interrupted | Refused | Failed py_error

text \<open>\<^verbatim>\<open>time.sleep(d)\<close> raises \<^verbatim>\<open>ValueError\<close> on a negative duration.\<close>

definition py_sleep :: "rat \<Rightarrow> py_error + rat" where
  "py_sleep d = (if d < 0 then Inl ValueError else Inr d)"

text \<open>
  What is assumed of the rounding \<open>fl\<close>: it is monotone and leaves the integers
  up to \<open>2\<^sup>5\<^sup>3\<close> alone. \<open>exact\<close> changes nothing; it is the rounding to a double
  wherever each value rounded is a double already, as in the runs evaluated below.
\<close>

definition rounding :: "(rat \<Rightarrow> rat) \<Rightarrow> bool" where
  "rounding fl \<longleftrightarrow>
     (\<forall>x y. x \<le> y \<longrightarrow> fl x \<le> fl y) \<and> (\<forall>k. \<bar>k\<bar> \<le> 2 ^ 53 \<longrightarrow> fl (of_int k) = of_int k)"

definition exact :: "rat \<Rightarrow> rat" where
  "exact x = x"

text \<open>
  What more holds of the rounding to the nearest double: a half of an integer up to
  \<open>2\<^sup>5\<^sup>3\<close> is a double; the error of a result in the normal range, from
  \<open>2\<^sup>-\<^sup>1\<^sup>0\<^sup>2\<^sup>2\<close> to \<open>2\<^sup>1\<^sup>0\<^sup>2\<^sup>3\<close>, is at most the result over \<open>2\<^sup>5\<^sup>3\<close> (half a unit in
  the last of 53 binary places); the error of a result below the normal range is at
  most \<open>2\<^sup>-\<^sup>1\<^sup>0\<^sup>7\<^sup>5\<close> (half the distance \<open>2\<^sup>-\<^sup>1\<^sup>0\<^sup>7\<^sup>4\<close> of the subnormal doubles).
\<close>

definition double_rounding :: "(rat \<Rightarrow> rat) \<Rightarrow> bool" where
  "double_rounding fl \<longleftrightarrow>
     rounding fl \<and>
     (\<forall>k. \<bar>k\<bar> \<le> 2 ^ 53 \<longrightarrow> fl (of_int k / 2) = of_int k / 2) \<and>
     (\<forall>x. 1 / 2 ^ 1022 \<le> \<bar>x\<bar> \<and> \<bar>x\<bar> \<le> 2 ^ 1023 \<longrightarrow> \<bar>fl x - x\<bar> \<le> \<bar>x\<bar> / 2 ^ 53) \<and>
     (\<forall>x. \<bar>x\<bar> \<le> 1 / 2 ^ 1022 \<longrightarrow> \<bar>fl x - x\<bar> \<le> 1 / 2 ^ 1075)"

text \<open>
  The rounding to the nearest double itself, a tie to the even significand, for results
  within the range of a double: \<open>binade x\<close> is the exponent \<open>e\<close> with
  \<open>2\<^sup>e \<le> \<bar>x\<bar> < 2\<^sup>e\<^sup>+\<^sup>1\<close>, and the result is the nearest multiple of \<open>2\<^sup>e\<^sup>-\<^sup>5\<^sup>2\<close> (of
  \<open>2\<^sup>-\<^sup>1\<^sup>0\<^sup>7\<^sup>4\<close> below the normal range).
\<close>

function bit_length :: "int \<Rightarrow> nat" where
  "bit_length n = (if n \<le> 0 then 0 else Suc (bit_length (n div 2)))"
  by auto

termination bit_length
  by (relation "measure nat") auto

declare bit_length.simps [simp del]

definition pow2 :: "int \<Rightarrow> rat" where
  "pow2 k = (if 0 \<le> k then 2 ^ nat k else 1 / 2 ^ nat (- k))"

definition binade :: "rat \<Rightarrow> int" where
  "binade x =
     (case quotient_of \<bar>x\<bar> of
        (p, q) \<Rightarrow>
          let d = int (bit_length p) - int (bit_length q)
          in if pow2 d \<le> \<bar>x\<bar> then d else d - 1)"

definition dbl :: "rat \<Rightarrow> rat" where
  "dbl x =
     (if x = 0 then 0
      else
        let ulp = pow2 (max (binade x) (- 1022) - 52)
        in of_int (py_round (x / ulp)) * ulp)"

subsection \<open>Formatted names and the search for a free directory\<close>

definition digit_char :: "nat \<Rightarrow> char" where
  "digit_char d = ''0123456789'' ! d"

fun digits_of :: "nat \<Rightarrow> string" where
  "digits_of n =
     (if n < 10 then [digit_char n] else digits_of (n div 10) @ [digit_char (n mod 10)])"

declare digits_of.simps [simp del]

definition zfill :: "nat \<Rightarrow> string \<Rightarrow> string" where
  "zfill width s = replicate (width - length s) CHR ''0'' @ s"

text \<open>The format \<^verbatim>\<open>{x:0Nd}\<close>: the sign counts in the width \<open>N\<close>.\<close>

definition format_d :: "nat \<Rightarrow> int \<Rightarrow> string" where
  "format_d width x =
     (if x < 0 then CHR ''-'' # zfill (width - 1) (digits_of (nat (- x)))
      else zfill width (digits_of (nat x)))"

text \<open>\<^verbatim>\<open>f"burst_{burst_num:03d}"\<close> and \<^verbatim>\<open>f"{burst_dir}/burst_{pos:04d}.jpeg"\<close>.\<close>

definition burst_dir_name :: "nat \<Rightarrow> string" where
  "burst_dir_name burst_num = ''burst_'' @ format_d 3 (int burst_num)"

definition image_path :: "string \<Rightarrow> int \<Rightarrow> string" where
  "image_path burst_dir pos = burst_dir @ ''/burst_'' @ format_d 4 pos @ ''.jpeg''"

text \<open>
  The loop that looks for a directory name not in use; \<open>ds\<close> are the names that exist.
  main-v3.py starts it at 1 in every run, main-v2.py at the global \<^verbatim>\<open>burst_counter\<close>.
\<close>

partial_function (option) next_burst_num :: "string list \<Rightarrow> nat \<Rightarrow> nat option" where
  "next_burst_num ds burst_num =
     (if burst_dir_name burst_num \<in> set ds then next_burst_num ds (burst_num + 1)
      else Some burst_num)"

declare next_burst_num.simps [code]

text \<open>
  What happens between two steps of a burst: the camera thread hands a frame to
  \<^verbatim>\<open>output.write\<close>, or a thread raises the emergency stop.
\<close>

datatype ambient = Frame string | Stop

section \<open>main-v2.py: StepperMotor with a blocking move loop\<close>

datatype MotorState = IDLE | MOVING | EMERGENCY_STOP | BURST

text \<open>
  The state of the process, flat: the attributes of \<^verbatim>\<open>motor\<close> that the code reads
  (\<open>current_position\<close>, \<open>is_moving\<close>), the global \<^verbatim>\<open>motor_status\<close> (\<open>position\<close>,
  \<open>target_position\<close>, \<open>state\<close> and the attribute \<open>burst_progress\<close>, which
  \<^verbatim>\<open>get_status\<close> reads as 0 while it is unset), the burst attributes of \<^verbatim>\<open>output\<close>,
  the global \<^verbatim>\<open>burst_counter\<close>, the direction and sleep pins, the number of
  pulses sent on the step pin, the directories that exist and the files written
  (the newest first).
\<close>

record world2 =
  current_position :: int
  is_moving :: bool
  position :: int
  target_position :: int
  state :: MotorState
  burst_progress :: rat
  burst_mode :: bool
  burst_dir :: "string option"
  burst_count :: int
  burst_total :: int
  burst_counter :: nat
  dir_pin :: bool
  sleep_pin :: bool
  pulses :: nat
  dirs :: "string list"
  files :: "(string \<times> string) list"

text \<open>
  The process after start-up, in a working directory that holds the directories \<open>ds\<close>.
\<close>

definition world2_init :: "string list \<Rightarrow> world2" where
  "world2_init ds =
     \<lparr>current_position = 0, is_moving = False, position = 0, target_position = 0,
      state = IDLE, burst_progress = 0, burst_mode = False, burst_dir = None,
      burst_count = 0, burst_total = 0, burst_counter = 1, dir_pin = False,
      sleep_pin = False, pulses = 0, dirs = ds, files = []\<rparr>"

definition wake_v2 :: "world2 \<Rightarrow> world2" where
  "wake_v2 w = w\<lparr>sleep_pin := True\<rparr>"

definition sleep_v2 :: "world2 \<Rightarrow> world2" where
  "sleep_v2 w = w\<lparr>sleep_pin := False\<rparr>"

text \<open>
  The body of the method \<^verbatim>\<open>StepperMotor.emergency_stop\<close>. (The constructor also
  assigns an instance attribute of the same name, so \<^verbatim>\<open>motor.emergency_stop()\<close> in
  \<^verbatim>\<open>handle_api\<close> finds the attribute; the model takes the body as what a thread that
  raises the flag does.)
\<close>

definition emergency_stop_v2 :: "world2 \<Rightarrow> world2" where
  "emergency_stop_v2 w = sleep_v2 (w\<lparr>state := EMERGENCY_STOP, is_moving := False\<rparr>)"

definition set_zero_v2 :: "world2 \<Rightarrow> world2" where
  "set_zero_v2 w = w\<lparr>current_position := 0, position := 0, target_position := 0\<rparr>"

text \<open>
  One pass of the \<^verbatim>\<open>while\<close> loop of \<^verbatim>\<open>_move_steps\<close>, from the test of the loop
  condition on; \<open>direction\<close> is \<^verbatim>\<open>direction == GPIO.HIGH\<close>.
\<close>

definition loop_step_v2 :: "interference \<Rightarrow> bool \<Rightarrow> world2 \<Rightarrow> run_result \<times> world2" where
  "loop_step_v2 e direction w =
     (let w1 = (if e = StopBeforeCheck then emergency_stop_v2 w else w)
      in if \<not> is_moving w1 then (Interrupted, w1)
         else if state w1 = EMERGENCY_STOP then (Interrupted, w1\<lparr>is_moving := False\<rparr>)
         else
           let w2 = (if e = StopAfterCheck then emergency_stop_v2 w1 else w1);
               w3 = w2\<lparr>pulses := Suc (pulses w2)\<rparr>;
               w4 = w3\<lparr>current_position :=
                         (if direction then current_position w3 + 1 else current_position w3 - 1)\<rparr>
           in (Completed, w4\<lparr>position := current_position w4\<rparr>))"

text \<open>The loop; the first component of the result is \<^verbatim>\<open>steps_remaining\<close> at its exit.\<close>

fun move_loop_v2 :: "interference list \<Rightarrow> bool \<Rightarrow> nat \<Rightarrow> world2 \<Rightarrow> nat \<times> world2" where
  "move_loop_v2 env direction 0 w = (0, w)"
| "move_loop_v2 env direction (Suc n) w =
     (case loop_step_v2 (next_ev env) direction w of
        (Completed, w') \<Rightarrow> move_loop_v2 (tl env) direction n w'
      | (_, w') \<Rightarrow> (Suc n, w'))"

definition finally_v2 :: "world2 \<Rightarrow> world2" where
  "finally_v2 w =
     (let w1 = sleep_v2 (w\<lparr>is_moving := False\<rparr>)
      in if state w1 \<noteq> EMERGENCY_STOP
         then w1\<lparr>state := IDLE, position := current_position w1,
                 target_position := current_position w1\<rparr>
         else w1)"

definition move_steps_v2 ::
  "interference list \<Rightarrow> int \<Rightarrow> int \<Rightarrow> world2 \<Rightarrow> bool outcome \<times> world2" where
  "move_steps_v2 env steps speed w =
     (if steps = 0 then (Returns True, w\<lparr>state := IDLE\<rparr>)
      else
        let direction = (0 < steps);
            w1 = w\<lparr>dir_pin := direction\<rparr>
        in if \<bar>speed\<bar> = 0 then (Raises ZeroDivisionError, w1)
           else
             let w2 = (wake_v2 w1)\<lparr>is_moving := True\<rparr>;
                 (steps_remaining, w3) = move_loop_v2 env direction (nat \<bar>steps\<bar>) w2
             in (Returns (steps_remaining = 0), finally_v2 w3))"

definition move_to_v2 ::
  "interference list \<Rightarrow> int \<Rightarrow> int \<Rightarrow> world2 \<Rightarrow> bool outcome \<times> world2" where
  "move_to_v2 env target speed w =
     (if state w = EMERGENCY_STOP then (Returns False, w)
      else
        let w1 = w\<lparr>state := MOVING, target_position := target\<rparr>
        in move_steps_v2 env (target - current_position w1) speed w1)"

definition move_relative_v2 ::
  "interference list \<Rightarrow> int \<Rightarrow> int \<Rightarrow> world2 \<Rightarrow> bool outcome \<times> world2" where
  "move_relative_v2 env steps speed w =
     (if state w = EMERGENCY_STOP then (Returns False, w)
      else
        let w1 = w\<lparr>state := MOVING, target_position := current_position w + steps\<rparr>
        in move_steps_v2 env steps speed w1)"

subsection \<open>The burst of main-v2.py\<close>

text \<open>\<^verbatim>\<open>(self.burst_count / self.burst_total) * 100\<close>.\<close>

definition progress_v2 :: "(rat \<Rightarrow> rat) \<Rightarrow> int \<Rightarrow> int \<Rightarrow> rat" where
  "progress_v2 fl saved wanted = fl (fl (of_int saved / of_int wanted) * 100)"

text \<open>
  \<^verbatim>\<open>save_burst_image\<close>, with the directory that \<^verbatim>\<open>write\<close> has found set, and
  \<^verbatim>\<open>StreamingOutput.write\<close>, which calls it in burst mode. (The count starts at 0
  and only grows, so the test \<^verbatim>\<open>burst_count < burst_total\<close> keeps the total that
  divides above 0.)
\<close>

definition save_burst_image :: "(rat \<Rightarrow> rat) \<Rightarrow> string \<Rightarrow> string \<Rightarrow> world2 \<Rightarrow> world2" where
  "save_burst_image fl dir frame_data w =
     (let current_pos = position w;
          filename = image_path dir current_pos
      in if burst_count w < burst_total w
         then
           let w1 = w\<lparr>files := (filename, frame_data) # files w\<rparr>;
               w2 = w1\<lparr>burst_count := burst_count w1 + 1\<rparr>;
               progress = progress_v2 fl (burst_count w2) (burst_total w2)
           in w2\<lparr>burst_progress := progress\<rparr>
         else w)"

definition write_v2 :: "(rat \<Rightarrow> rat) \<Rightarrow> string \<Rightarrow> world2 \<Rightarrow> world2" where
  "write_v2 fl buf w =
     (case burst_dir w of
        None \<Rightarrow> w
      | Some dir \<Rightarrow> if burst_mode w \<and> dir \<noteq> [] then save_burst_image fl dir buf w else w)"

fun ambient_v2 :: "(rat \<Rightarrow> rat) \<Rightarrow> ambient list \<Rightarrow> world2 \<Rightarrow> world2" where
  "ambient_v2 fl [] w = w"
| "ambient_v2 fl (Frame buf # evs) w = ambient_v2 fl evs (write_v2 fl buf w)"
| "ambient_v2 fl (Stop # evs) w = ambient_v2 fl evs (emergency_stop_v2 w)"

text \<open>
  The environment of one move of a burst: the interference with the move, then what
  the camera and the other threads do before the burst goes on (for the moves of the
  loop, while it sleeps).
\<close>

type_synonym phase = "interference list \<times> ambient list"

definition next_phase :: "phase list \<Rightarrow> phase" where
  "next_phase env = (case env of [] \<Rightarrow> ([], []) | ph # _ \<Rightarrow> ph)"

text \<open>
  \<^verbatim>\<open>target_pos = int(start + (i * step_increment))\<close>, where \<^verbatim>\<open>step_increment\<close> is
  the float \<^verbatim>\<open>step_range / (count - 1)\<close>: the integers \<open>i\<close> and \<open>start\<close> are made
  floats, the product and the sum are floats, and \<^verbatim>\<open>int\<close> truncates toward zero.
\<close>

definition target_pos_v2 :: "(rat \<Rightarrow> rat) \<Rightarrow> int \<Rightarrow> rat \<Rightarrow> int \<Rightarrow> int" where
  "target_pos_v2 fl start step_increment i =
     py_int (fl (fl (of_int start) + fl (fl (of_int i) * step_increment)))"

text \<open>
  One pass of the \<^verbatim>\<open>for i in range(count)\<close> loop of \<^verbatim>\<open>perform_burst\<close>, and the
  loop from index \<open>i\<close> with \<open>r\<close> passes left.
\<close>

definition burst_step_v2 ::
  "(rat \<Rightarrow> rat) \<Rightarrow> phase \<Rightarrow> int \<Rightarrow> int \<Rightarrow> rat \<Rightarrow> int \<Rightarrow> world2 \<Rightarrow> run_result \<times> world2" where
  "burst_step_v2 fl ph i start step_increment speed w =
     (if state w = EMERGENCY_STOP then (Interrupted, w)
      else
        let target_pos = target_pos_v2 fl start step_increment i
        in if 0 < i
           then (case move_to_v2 (fst ph) target_pos speed w of
                   (Raises err, w1) \<Rightarrow> (Failed err, w1)
                 | (Returns _, w1) \<Rightarrow> (Completed, ambient_v2 fl (snd ph) w1))
           else (Completed, ambient_v2 fl (snd ph) w))"

fun burst_loop_v2 ::
  "(rat \<Rightarrow> rat) \<Rightarrow> phase list \<Rightarrow> nat \<Rightarrow> int \<Rightarrow> int \<Rightarrow> rat \<Rightarrow> int \<Rightarrow> world2
     \<Rightarrow> run_result \<times> world2" where
  "burst_loop_v2 fl env 0 i start step_increment speed w = (Completed, w)"
| "burst_loop_v2 fl env (Suc r) i start step_increment speed w =
     (case burst_step_v2 fl (next_phase env) i start step_increment speed w of
        (Completed, w') \<Rightarrow> burst_loop_v2 fl (tl env) r (i + 1) start step_increment speed w'
      | other \<Rightarrow> other)"

text \<open>The body of the \<^verbatim>\<open>try\<close> and the \<^verbatim>\<open>finally\<close> of \<^verbatim>\<open>perform_burst\<close>.\<close>

definition burst_try_v2 ::
  "(rat \<Rightarrow> rat) \<Rightarrow> phase \<Rightarrow> phase list \<Rightarrow> int \<Rightarrow> rat \<Rightarrow> int \<Rightarrow> int \<Rightarrow> world2
     \<Rightarrow> run_result \<times> world2" where
  "burst_try_v2 fl env0 env start step_increment count speed w =
     (case move_to_v2 (fst env0) start speed w of
        (Raises err, w1) \<Rightarrow> (Failed err, w1)
      | (Returns _, w1) \<Rightarrow>
          burst_loop_v2 fl env (nat count) 0 start step_increment speed
            (ambient_v2 fl (snd env0) w1))"

definition burst_finally_v2 :: "world2 \<Rightarrow> world2" where
  "burst_finally_v2 w =
     (let w1 = w\<lparr>burst_mode := False, burst_dir := None\<rparr>;
          w2 = (if state w1 \<noteq> EMERGENCY_STOP then w1\<lparr>state := IDLE\<rparr> else w1)
      in w2\<lparr>burst_progress := 0\<rparr>)"

text \<open>The state in which the \<^verbatim>\<open>try\<close> is entered.\<close>

definition burst_setup_v2 :: "string \<Rightarrow> int \<Rightarrow> world2 \<Rightarrow> world2" where
  "burst_setup_v2 dir count w =
     w\<lparr>state := BURST, burst_mode := True, burst_dir := Some dir, burst_count := 0,
       burst_total := count\<rparr>"

definition perform_burst ::
  "(rat \<Rightarrow> rat) \<Rightarrow> phase \<Rightarrow> phase list \<Rightarrow> int \<Rightarrow> int \<Rightarrow> int \<Rightarrow> int \<Rightarrow> world2
     \<Rightarrow> (run_result \<times> world2) option" where
  "perform_burst fl env0 env start end count speed w =
     (case next_burst_num (dirs w) (burst_counter w) of
        None \<Rightarrow> None
      | Some k \<Rightarrow>
          Some
            (let dir = burst_dir_name k;
                 w1 = w\<lparr>burst_counter := k, dirs := dir # dirs w\<rparr>;
                 step_range = end - start
             in case py_truediv step_range (count - 1) of
                  Inl err \<Rightarrow> (Failed err, w1)
                | Inr q \<Rightarrow>
                    (case burst_try_v2 fl env0 env start (fl q) count speed
                            (burst_setup_v2 dir count w1) of
                       (res, w2) \<Rightarrow> (res, burst_finally_v2 w2))))"

section \<open>main-v3.py: MotorController with a speed ramp\<close>

record world3 =
  position_v3 :: int
  target_position_v3 :: int
  moving :: bool
  emergency_stop_flag :: bool
  burst_progress_v3 :: int
  dir_pin_v3 :: bool
  sleep_pin_v3 :: bool
  pulses_v3 :: nat
  dirs_v3 :: "string list"
  captured_v3 :: "string list"

text \<open>
  \<open>captured_v3\<close> lists the files that \<^verbatim>\<open>picam2.capture_file\<close> has written, the
  newest first; \<open>pulses_v3\<close> counts the pulses sent on the step pin.
\<close>

definition world3_init :: "string list \<Rightarrow> world3" where
  "world3_init ds =
     \<lparr>position_v3 = 0, target_position_v3 = 0, moving = False, emergency_stop_flag = False,
      burst_progress_v3 = 0, dir_pin_v3 = False, sleep_pin_v3 = False, pulses_v3 = 0,
      dirs_v3 = ds, captured_v3 = []\<rparr>"

definition wake_up :: "world3 \<Rightarrow> world3" where
  "wake_up m = m\<lparr>sleep_pin_v3 := True\<rparr>"

definition sleep_v3 :: "world3 \<Rightarrow> world3" where
  "sleep_v3 m = m\<lparr>sleep_pin_v3 := False\<rparr>"

definition set_direction :: "int \<Rightarrow> world3 \<Rightarrow> world3" where
  "set_direction direction m = m\<lparr>dir_pin_v3 := (0 < direction)\<rparr>"

definition step_v3 :: "world3 \<Rightarrow> world3" where
  "step_v3 m = m\<lparr>pulses_v3 := Suc (pulses_v3 m)\<rparr>"

definition emergency_stop_v3 :: "world3 \<Rightarrow> world3" where
  "emergency_stop_v3 m = sleep_v3 (m\<lparr>emergency_stop_flag := True, moving := False\<rparr>)"

definition set_zero_v3 :: "world3 \<Rightarrow> world3" where
  "set_zero_v3 m = m\<lparr>position_v3 := 0, target_position_v3 := 0\<rparr>"

text \<open>
  \<^verbatim>\<open>steps_to_accel = min(abs_steps // 2, int(speed_hz * speed_hz / (2 * acceleration)))\<close>,
  set to 0 when below 1.
\<close>

definition steps_to_accel_v3 :: "(rat \<Rightarrow> rat) \<Rightarrow> int \<Rightarrow> int \<Rightarrow> int \<Rightarrow> py_error + int" where
  "steps_to_accel_v3 fl abs_steps speed_hz acceleration =
     (case py_truediv (speed_hz * speed_hz) (2 * acceleration) of
        Inl err \<Rightarrow> Inl err
      | Inr q \<Rightarrow>
          let steps_to_accel = min (abs_steps div 2) (py_int (fl q))
          in Inr (if steps_to_accel < 1 then 0 else steps_to_accel))"

text \<open>
  The speed of step \<open>i\<close> before the floor \<^verbatim>\<open>max(1, current_speed)\<close>:
  \<^verbatim>\<open>acceleration * i / speed_hz\<close> in the first \<open>steps_to_accel\<close> steps,
  \<^verbatim>\<open>acceleration * (abs_steps - i) / speed_hz\<close> in the last, \<^verbatim>\<open>speed_hz\<close> between.
\<close>

definition current_speed_v3 :: "int \<Rightarrow> int \<Rightarrow> int \<Rightarrow> int \<Rightarrow> int \<Rightarrow> py_error + rat" where
  "current_speed_v3 i abs_steps steps_to_accel speed_hz acceleration =
     (if i < steps_to_accel then py_truediv (acceleration * i) speed_hz
      else if abs_steps - steps_to_accel < i
           then py_truediv (acceleration * (abs_steps - i)) speed_hz
           else Inr (of_int speed_hz))"

text \<open>The duration of \<^verbatim>\<open>time.sleep(1.0 / current_speed)\<close> after the floor.\<close>

definition step_delay_v3 :: "int \<Rightarrow> int \<Rightarrow> int \<Rightarrow> int \<Rightarrow> int \<Rightarrow> py_error + rat" where
  "step_delay_v3 i abs_steps steps_to_accel speed_hz acceleration =
     (case current_speed_v3 i abs_steps steps_to_accel speed_hz acceleration of
        Inl err \<Rightarrow> Inl err
      | Inr current_speed \<Rightarrow> py_sleep (1 / max 1 current_speed))"

text \<open>
  The \<^verbatim>\<open>callback\<close> argument of \<^verbatim>\<open>move_steps\<close>: \<^verbatim>\<open>None\<close> (the burst) or the
  function \<^verbatim>\<open>move_done\<close> of the \<^verbatim>\<open>/move_motor\<close> handler, which takes no argument and
  so raises \<^verbatim>\<open>TypeError\<close> when the loop calls it with the progress.
\<close>

datatype callback = NoCallback | MoveDone

definition loop_step_v3 ::
  "interference \<Rightarrow> callback \<Rightarrow> int \<Rightarrow> int \<Rightarrow> int \<Rightarrow> int \<Rightarrow> int \<Rightarrow> int \<Rightarrow> world3
     \<Rightarrow> run_result \<times> world3" where
  "loop_step_v3 e cb i abs_steps steps_to_accel direction speed_hz acceleration m =
     (let m1 = (if e = StopBeforeCheck then emergency_stop_v3 m else m)
      in if emergency_stop_flag m1 then (Interrupted, m1\<lparr>emergency_stop_flag := False\<rparr>)
         else
           let m2 = (if e = StopAfterCheck then emergency_stop_v3 m1 else m1)
           in case current_speed_v3 i abs_steps steps_to_accel speed_hz acceleration of
                Inl err \<Rightarrow> (Failed err, m2)
              | Inr current_speed \<Rightarrow>
                  let m3 = step_v3 m2;
                      m4 = m3\<lparr>position_v3 := position_v3 m3 + direction\<rparr>
                  in case py_sleep (1 / max 1 current_speed) of
                       Inl err \<Rightarrow> (Failed err, m4)
                     | Inr _ \<Rightarrow>
                         if cb = MoveDone \<and> i mod 100 = 0 then (Failed TypeError, m4)
                         else (Completed, m4))"

text \<open>The \<^verbatim>\<open>for i in range(abs_steps)\<close> loop from index \<open>i\<close>, with \<open>r\<close> passes left.\<close>

fun move_loop_v3 ::
  "interference list \<Rightarrow> callback \<Rightarrow> nat \<Rightarrow> int \<Rightarrow> int \<Rightarrow> int \<Rightarrow> int \<Rightarrow> int \<Rightarrow> int \<Rightarrow> world3
     \<Rightarrow> run_result \<times> world3" where
  "move_loop_v3 env cb 0 i abs_steps steps_to_accel direction speed_hz acceleration m =
     (Completed, m)"
| "move_loop_v3 env cb (Suc r) i abs_steps steps_to_accel direction speed_hz acceleration m =
     (case loop_step_v3 (next_ev env) cb i abs_steps steps_to_accel direction speed_hz
             acceleration m of
        (Completed, m') \<Rightarrow>
          move_loop_v3 (tl env) cb r (i + 1) abs_steps steps_to_accel direction speed_hz
            acceleration m'
      | other \<Rightarrow> other)"

definition move_steps_v3 ::
  "(rat \<Rightarrow> rat) \<Rightarrow> interference list \<Rightarrow> callback \<Rightarrow> int \<Rightarrow> int \<Rightarrow> int \<Rightarrow> world3
     \<Rightarrow> run_result \<times> world3" where
  "move_steps_v3 fl env cb steps speed_hz acceleration m =
     (if emergency_stop_flag m then (Refused, m\<lparr>emergency_stop_flag := False\<rparr>)
      else
        let m1 = wake_up (m\<lparr>moving := True\<rparr>);
            direction = (if 0 < steps then 1 else - 1);
            abs_steps = \<bar>steps\<bar>;
            m2 = set_direction direction m1
        in case steps_to_accel_v3 fl abs_steps speed_hz acceleration of
             Inl err \<Rightarrow> (Failed err, m2)
           | Inr steps_to_accel \<Rightarrow>
               (case move_loop_v3 env cb (nat abs_steps) 0 abs_steps steps_to_accel direction
                       speed_hz acceleration m2 of
                  (Failed err, m3) \<Rightarrow> (Failed err, m3)
                | (r, m3) \<Rightarrow> (r, sleep_v3 (m3\<lparr>moving := False\<rparr>))))"

definition move_to_position ::
  "(rat \<Rightarrow> rat) \<Rightarrow> interference list \<Rightarrow> callback \<Rightarrow> int \<Rightarrow> int \<Rightarrow> int \<Rightarrow> world3
     \<Rightarrow> run_result \<times> world3" where
  "move_to_position fl env cb target speed_hz acceleration m =
     (let steps_to_move = target - position_v3 m
      in if steps_to_move \<noteq> 0
         then move_steps_v3 fl env cb steps_to_move speed_hz acceleration m
         else (Completed, m))"

subsection \<open>The burst of main-v3.py\<close>

text \<open>
  \<^verbatim>\<open>pos = start_pos + (end_pos - start_pos) * i / (num_images - 1)\<close> and
  \<^verbatim>\<open>int(round(pos))\<close>, for \<open>i\<close> in \<^verbatim>\<open>range(num_images)\<close>: the product is one of
  integers, the quotient is a float, \<open>start_pos\<close> is made a float and the sum is a float.
\<close>

definition burst_position_v3 ::
  "(rat \<Rightarrow> rat) \<Rightarrow> int \<Rightarrow> int \<Rightarrow> int \<Rightarrow> int \<Rightarrow> py_error + int" where
  "burst_position_v3 fl start_pos end_pos num_images i =
     (case py_truediv ((end_pos - start_pos) * i) (num_images - 1) of
        Inl err \<Rightarrow> Inl err
      | Inr q \<Rightarrow> Inr (py_round (fl (fl (of_int start_pos) + fl q))))"

fun for_each :: "('a \<Rightarrow> py_error + 'b) \<Rightarrow> 'a list \<Rightarrow> py_error + 'b list" where
  "for_each f [] = Inr []"
| "for_each f (x # xs) =
     (case f x of
        Inl err \<Rightarrow> Inl err
      | Inr y \<Rightarrow> (case for_each f xs of Inl err \<Rightarrow> Inl err | Inr ys \<Rightarrow> Inr (y # ys)))"

definition burst_positions_v3 ::
  "(rat \<Rightarrow> rat) \<Rightarrow> int \<Rightarrow> int \<Rightarrow> int \<Rightarrow> py_error + int list" where
  "burst_positions_v3 fl start_pos end_pos num_images =
     for_each (burst_position_v3 fl start_pos end_pos num_images) [0..num_images - 1]"

text \<open>
  The environment of one image: whether the emergency stop is raised before the loop
  tests the flag, the interference with the move, and whether
  \<^verbatim>\<open>picam2.capture_file\<close> returns (or raises).
\<close>

type_synonym shot = "bool \<times> interference list \<times> bool"

definition next_shot :: "shot list \<Rightarrow> shot" where
  "next_shot env = (case env of [] \<Rightarrow> (False, [], True) | sh # _ \<Rightarrow> sh)"

text \<open>\<^verbatim>\<open>int((i + 1) / num_images * 100)\<close>.\<close>

definition progress_v3 :: "(rat \<Rightarrow> rat) \<Rightarrow> int \<Rightarrow> int \<Rightarrow> int" where
  "progress_v3 fl i num_images = py_int (fl (fl (of_int (i + 1) / of_int num_images) * 100))"

text \<open>
  One pass of the loop \<^verbatim>\<open>for i, pos in enumerate(positions)\<close>, and the loop from
  index \<open>i\<close>.
\<close>

definition burst_step_v3 ::
  "(rat \<Rightarrow> rat) \<Rightarrow> shot \<Rightarrow> string \<Rightarrow> int \<Rightarrow> int \<Rightarrow> int \<Rightarrow> int \<Rightarrow> int \<Rightarrow> world3
     \<Rightarrow> run_result \<times> world3" where
  "burst_step_v3 fl sh dir i pos num_images speed acceleration m =
     (case sh of
        (stop, move_env, capture_ok) \<Rightarrow>
          let m0 = (if stop then emergency_stop_v3 m else m)
          in if emergency_stop_flag m0 then (Interrupted, m0\<lparr>emergency_stop_flag := False\<rparr>)
             else
               let m1 = m0\<lparr>burst_progress_v3 := progress_v3 fl i num_images\<rparr>
               in case move_to_position fl move_env NoCallback pos speed acceleration m1 of
                    (Failed err, m2) \<Rightarrow> (Failed err, m2)
                  | (_, m2) \<Rightarrow>
                      if capture_ok
                      then (Completed, m2\<lparr>captured_v3 := image_path dir pos # captured_v3 m2\<rparr>)
                      else (Failed CaptureError, m2))"

fun burst_loop_v3 ::
  "(rat \<Rightarrow> rat) \<Rightarrow> shot list \<Rightarrow> string \<Rightarrow> int \<Rightarrow> int list \<Rightarrow> int \<Rightarrow> int \<Rightarrow> int \<Rightarrow> world3
     \<Rightarrow> run_result \<times> world3" where
  "burst_loop_v3 fl env dir i [] num_images speed acceleration m = (Completed, m)"
| "burst_loop_v3 fl env dir i (pos # rest) num_images speed acceleration m =
     (case burst_step_v3 fl (next_shot env) dir i pos num_images speed acceleration m of
        (Completed, m') \<Rightarrow>
          burst_loop_v3 fl (tl env) dir (i + 1) rest num_images speed acceleration m'
      | other \<Rightarrow> other)"

definition burst_thread ::
  "(rat \<Rightarrow> rat) \<Rightarrow> interference list \<Rightarrow> shot list \<Rightarrow> int \<Rightarrow> int \<Rightarrow> int \<Rightarrow> int \<Rightarrow> int \<Rightarrow> world3
     \<Rightarrow> (run_result \<times> world3) option" where
  "burst_thread fl env0 env start_pos end_pos num_images speed acceleration m =
     (case next_burst_num (dirs_v3 m) 1 of
        None \<Rightarrow> None
      | Some burst_num \<Rightarrow>
          Some
            (let burst_dir = burst_dir_name burst_num;
                 m1 = m\<lparr>dirs_v3 := burst_dir # dirs_v3 m\<rparr>
             in case move_to_position fl env0 NoCallback start_pos speed acceleration m1 of
                  (Failed err, m2) \<Rightarrow> (Failed err, m2)
                | (_, m2) \<Rightarrow>
                    (case burst_positions_v3 fl start_pos end_pos num_images of
                       Inl err \<Rightarrow> (Failed err, m2)
                     | Inr positions \<Rightarrow>
                         (case burst_loop_v3 fl env burst_dir 0 positions num_images speed
                                 acceleration m2 of
                            (Failed err, m3) \<Rightarrow> (Failed err, m3)
                          | (res, m3) \<Rightarrow> (res, m3\<lparr>burst_progress_v3 := 0\<rparr>)))))"

section \<open>main-v4.py: StepperMotor with a move thread\<close>

text \<open>
  \<open>pulses_v4\<close> counts the pulses sent on the step pin and \<open>threads_v4\<close> the
  \<^verbatim>\<open>_move_thread\<close> threads started; the other fields are attributes of the object.
\<close>

record motor4 =
  current_position_v4 :: int
  target_position_v4 :: int
  is_moving_v4 :: bool
  emergency_stop_v4 :: bool
  threads_v4 :: nat
  dir_pin_v4 :: bool
  pulses_v4 :: nat

definition motor4_init :: motor4 where
  "motor4_init =
     \<lparr>current_position_v4 = 0, target_position_v4 = 0, is_moving_v4 = False,
      emergency_stop_v4 = False, threads_v4 = 0, dir_pin_v4 = False, pulses_v4 = 0\<rparr>"

definition set_zero_v4 :: "motor4 \<Rightarrow> motor4" where
  "set_zero_v4 m = m\<lparr>current_position_v4 := 0, target_position_v4 := 0\<rparr>"

definition emergency_stop_now :: "motor4 \<Rightarrow> motor4" where
  "emergency_stop_now m = m\<lparr>emergency_stop_v4 := True, is_moving_v4 := False\<rparr>"

definition move_to_v4 :: "int \<Rightarrow> motor4 \<Rightarrow> motor4" where
  "move_to_v4 target m =
     (if emergency_stop_v4 m then m
      else
        let m1 = m\<lparr>target_position_v4 := target\<rparr>
        in if \<not> is_moving_v4 m1
           then m1\<lparr>is_moving_v4 := True, threads_v4 := Suc (threads_v4 m1)\<rparr>
           else m1)"

definition move_v4 :: "int \<Rightarrow> string \<Rightarrow> motor4 \<Rightarrow> motor4" where
  "move_v4 steps direction m =
     (if direction = ''positive'' then move_to_v4 (target_position_v4 m + steps) m
      else move_to_v4 (target_position_v4 m - steps) m)"

text \<open>\<^verbatim>\<open>accel_steps = min(steps_to_move // 2, int(speed * speed / (2 * acceleration)))\<close>.\<close>

definition accel_steps_v4 :: "(rat \<Rightarrow> rat) \<Rightarrow> int \<Rightarrow> int \<Rightarrow> int \<Rightarrow> py_error + int" where
  "accel_steps_v4 fl steps_to_move speed acceleration =
     (case py_truediv (speed * speed) (2 * acceleration) of
        Inl err \<Rightarrow> Inl err
      | Inr q \<Rightarrow> Inr (min (steps_to_move div 2) (py_int (fl q))))"

definition current_speed_v4 :: "int \<Rightarrow> int \<Rightarrow> int \<Rightarrow> int \<Rightarrow> int \<Rightarrow> py_error + rat" where
  "current_speed_v4 step steps_to_move accel_steps speed acceleration =
     (if step < accel_steps then py_truediv (acceleration * step) speed
      else if steps_to_move - accel_steps < step
           then py_truediv (acceleration * (steps_to_move - step)) speed
           else Inr 1)"

text \<open>The statement in the \<^verbatim>\<open>try\<close>: \<^verbatim>\<open>time.sleep(1 / (speed * current_speed))\<close>.\<close>

definition tried_delay_v4 :: "int \<Rightarrow> rat \<Rightarrow> py_error + rat" where
  "tried_delay_v4 speed current_speed =
     (if of_int speed * current_speed = 0 then Inl ZeroDivisionError
      else py_sleep (1 / (of_int speed * current_speed)))"

text \<open>The \<^verbatim>\<open>try\<close> with its bare \<^verbatim>\<open>except\<close>: \<^verbatim>\<open>time.sleep(1 / (speed))\<close>.\<close>

definition step_delay_v4 :: "int \<Rightarrow> rat \<Rightarrow> py_error + rat" where
  "step_delay_v4 speed current_speed =
     (case tried_delay_v4 speed current_speed of
        Inr d \<Rightarrow> Inr d
      | Inl _ \<Rightarrow> (if speed = 0 then Inl ZeroDivisionError else py_sleep (1 / of_int speed)))"

definition loop_step_v4 ::
  "interference \<Rightarrow> int \<Rightarrow> int \<Rightarrow> int \<Rightarrow> int \<Rightarrow> int \<Rightarrow> motor4 \<Rightarrow> run_result \<times> motor4" where
  "loop_step_v4 e step steps_to_move accel_steps speed acceleration m =
     (let m1 = (if e = StopBeforeCheck then emergency_stop_now m else m)
      in if emergency_stop_v4 m1 then (Interrupted, m1\<lparr>is_moving_v4 := False\<rparr>)
         else
           let m2 = (if e = StopAfterCheck then emergency_stop_now m1 else m1)
           in case current_speed_v4 step steps_to_move accel_steps speed acceleration of
                Inl err \<Rightarrow> (Failed err, m2)
              | Inr current_speed \<Rightarrow>
                  let m3 = m2\<lparr>pulses_v4 := Suc (pulses_v4 m2)\<rparr>
                  in case step_delay_v4 speed current_speed of
                       Inl err \<Rightarrow> (Failed err, m3)
                     | Inr _ \<Rightarrow> (Completed, m3))"

fun move_loop_v4 ::
  "interference list \<Rightarrow> nat \<Rightarrow> int \<Rightarrow> int \<Rightarrow> int \<Rightarrow> int \<Rightarrow> int \<Rightarrow> motor4
     \<Rightarrow> run_result \<times> motor4" where
  "move_loop_v4 env 0 step steps_to_move accel_steps speed acceleration m = (Completed, m)"
| "move_loop_v4 env (Suc r) step steps_to_move accel_steps speed acceleration m =
     (case loop_step_v4 (next_ev env) step steps_to_move accel_steps speed acceleration m of
        (Completed, m') \<Rightarrow>
          move_loop_v4 (tl env) r (step + 1) steps_to_move accel_steps speed acceleration m'
      | other \<Rightarrow> other)"

definition move_thread_v4 ::
  "(rat \<Rightarrow> rat) \<Rightarrow> interference list \<Rightarrow> int \<Rightarrow> int \<Rightarrow> motor4 \<Rightarrow> run_result \<times> motor4" where
  "move_thread_v4 fl env speed acceleration m =
     (let steps_to_move = \<bar>target_position_v4 m - current_position_v4 m\<bar>
      in if steps_to_move = 0 then (Completed, m\<lparr>is_moving_v4 := False\<rparr>)
         else
           let m1 = m\<lparr>dir_pin_v4 := (current_position_v4 m < target_position_v4 m)\<rparr>
           in case accel_steps_v4 fl steps_to_move speed acceleration of
                Inl err \<Rightarrow> (Failed err, m1)
              | Inr accel_steps \<Rightarrow>
                  (case move_loop_v4 env (nat steps_to_move) 0 steps_to_move accel_steps speed
                          acceleration m1 of
                     (Completed, m2) \<Rightarrow>
                       (Completed,
                        m2\<lparr>current_position_v4 := target_position_v4 m2, is_moving_v4 := False\<rparr>)
                   | other \<Rightarrow> other))"

section \<open>Auxiliary definitions\<close>

text \<open>The number that a string of digits denotes.\<close>

definition digit_val :: "char \<Rightarrow> nat" where
  "digit_val c = of_char c - 48"

definition str_val :: "string \<Rightarrow> nat" where
  "str_val s = foldl (\<lambda>a c. 10 * a + digit_val c) 0 s"

text \<open>The part of the state that the motor code never writes.\<close>

definition burst_side ::
  "world2 \<Rightarrow> int \<times> int \<times> rat \<times> bool \<times> string option \<times> nat \<times> string list
     \<times> (string \<times> string) list" where
  "burst_side w =
     (burst_count w, burst_total w, burst_progress w, burst_mode w, burst_dir w,
      burst_counter w, dirs w, files w)"

definition burst_side_v3 :: "world3 \<Rightarrow> int \<times> string list \<times> string list" where
  "burst_side_v3 m = (burst_progress_v3 m, dirs_v3 m, captured_v3 m)"

text \<open>
  What holds of the counters of main-v2.py throughout a burst of \<open>t\<close> images: the total
  is \<open>t\<close>, the count is within it, and the progress reported is not negative and not
  above the progress of the present count.
\<close>

definition burst_inv :: "(rat \<Rightarrow> rat) \<Rightarrow> int \<Rightarrow> world2 \<Rightarrow> bool" where
  "burst_inv fl t w \<longleftrightarrow>
     burst_total w = t \<and> 0 \<le> burst_count w \<and> burst_count w \<le> t \<and>
     0 \<le> burst_progress w \<and> burst_progress w \<le> progress_v2 fl (burst_count w) t"

text \<open>
  What holds of the directories and files of main-v2.py throughout a burst that began in
  the state \<open>w0\<close> and writes to the directory \<open>d\<close>: the directories and the counter
  stay, and every file added is an image in \<open>d\<close>.
\<close>

definition files_inv :: "string \<Rightarrow> world2 \<Rightarrow> world2 \<Rightarrow> bool" where
  "files_inv d w0 w \<longleftrightarrow>
     burst_dir w = Some d \<and> dirs w = dirs w0 \<and> burst_counter w = burst_counter w0 \<and>
     (\<exists>new. files w = new @ files w0 \<and> fst ` set new \<subseteq> range (image_path d))"


text \<open>
  The float \<^verbatim>\<open>pos\<close> that main-v3.py rounds for image \<open>i\<close>, and the float that
  main-v2.py truncates, with \<^verbatim>\<open>step_increment\<close> as \<^verbatim>\<open>perform_burst\<close> computes it.
\<close>

definition computed_v3 :: "(rat \<Rightarrow> rat) \<Rightarrow> int \<Rightarrow> int \<Rightarrow> int \<Rightarrow> int \<Rightarrow> rat" where
  "computed_v3 fl start_pos end_pos num_images i =
     fl (fl (of_int start_pos) +
         fl (of_int ((end_pos - start_pos) * i) / of_int (num_images - 1)))"

definition step_increment_v2 :: "(rat \<Rightarrow> rat) \<Rightarrow> int \<Rightarrow> int \<Rightarrow> int \<Rightarrow> rat" where
  "step_increment_v2 fl start end count = fl (of_int (end - start) / of_int (count - 1))"


section \<open>The move loops: pulses and position\<close>

lemmas v2_step_defs = loop_step_v2_def Let_def emergency_stop_v2_def sleep_v2_def

text \<open>
  main-v2.py: the loop counts the position with the pulses. When it leaves with \<open>r\<close>
  steps remaining out of \<open>n\<close>, it has sent \<open>n - r\<close> pulses and moved the position by as
  many, in the direction of the move.
\<close>

lemma move_loop_v2_track:
  "move_loop_v2 env d n w = (r, w') \<Longrightarrow>
     r \<le> n \<and> pulses w' = pulses w + (n - r) \<and>
     current_position w' = current_position w + (if d then 1 else - 1) * int (n - r)"
proof (induction n arbitrary: env w)
  case 0
  then show ?case by simp
next
  case (Suc n)
  show ?case
  proof (cases "loop_step_v2 (next_ev env) d w")
    case (Pair res w1)
    show ?thesis
    proof (cases "res = Completed")
      case True
      with Pair Suc.prems have rec: "move_loop_v2 (tl env) d n w1 = (r, w')" by simp
      from Pair True have "pulses w1 = Suc (pulses w) \<and>
          current_position w1 = current_position w + (if d then 1 else - 1)"
        by (auto simp: v2_step_defs split: if_splits)
      with Suc.IH[OF rec] show ?thesis by (auto simp: algebra_simps Suc_diff_le)
    next
      case False
      with Pair Suc.prems have "r = Suc n" "w' = w1" by (cases res; simp)+
      moreover from Pair False
      have "pulses w1 = pulses w \<and> current_position w1 = current_position w"
        by (auto simp: v2_step_defs split: if_splits)
      ultimately show ?thesis by simp
    qed
  qed
qed




text \<open>main-v3.py: what one pass of the loop does to the pulse count and the flag.\<close>

lemmas v3_step_defs = loop_step_v3_def Let_def emergency_stop_v3_def sleep_v3_def step_v3_def




text \<open>
  main-v4.py: no pass of the loop writes the position; the thread writes it once, after
  the loop has run to its end.
\<close>

lemmas v4_step_defs = loop_step_v4_def Let_def emergency_stop_now_def

lemma loop_step_v4_frame:
  "loop_step_v4 e st n k s a m = (res, m') \<Longrightarrow>
     current_position_v4 m' = current_position_v4 m \<and>
     target_position_v4 m' = target_position_v4 m \<and>
     pulses_v4 m' \<le> pulses_v4 m + 1 \<and>
     (res = Completed \<longrightarrow> pulses_v4 m' = pulses_v4 m + 1)"
  by (auto simp: v4_step_defs split: if_splits sum.splits)

lemma move_loop_v4_frame:
  "move_loop_v4 env r st n k s a m = (res, m') \<Longrightarrow>
     current_position_v4 m' = current_position_v4 m \<and>
     target_position_v4 m' = target_position_v4 m \<and>
     pulses_v4 m' \<le> pulses_v4 m + r \<and>
     (res = Completed \<longrightarrow> pulses_v4 m' = pulses_v4 m + r)"
proof (induction r arbitrary: env st m)
  case 0
  then show ?case by auto
next
  case (Suc r)
  obtain res1 m1 where s1: "loop_step_v4 (next_ev env) st n k s a m = (res1, m1)"
    by (cases "loop_step_v4 (next_ev env) st n k s a m")
  note f = loop_step_v4_frame[OF s1]
  show ?case
  proof (cases "res1 = Completed")
    case True
    with s1 Suc.prems have "move_loop_v4 (tl env) r (st + 1) n k s a m1 = (res, m')" by simp
    from Suc.IH[OF this] f True show ?thesis by auto
  next
    case False
    with s1 Suc.prems have "res = res1" "m' = m1" by (cases res1; simp)+
    with f False show ?thesis by auto
  qed
qed

lemma move_thread_v4_completed:
  "move_thread_v4 fl env s a m = (Completed, m') \<Longrightarrow>
     current_position_v4 m' = target_position_v4 m \<and>
     pulses_v4 m' = pulses_v4 m + nat \<bar>target_position_v4 m - current_position_v4 m\<bar>"
  apply (auto simp: move_thread_v4_def Let_def
              split: if_splits sum.splits prod.splits run_result.splits)
  apply (drule move_loop_v4_frame, simp)+
  done

lemma move_thread_v4_interrupted:
  "move_thread_v4 fl env s a m = (Interrupted, m') \<Longrightarrow>
     current_position_v4 m' = current_position_v4 m"
  apply (auto simp: move_thread_v4_def Let_def
              split: if_splits sum.splits prod.splits run_result.splits)
  apply (drule move_loop_v4_frame, simp)+
  done

section \<open>Directory names\<close>

lemma digit_val_char: "d < 10 \<Longrightarrow> digit_val (digit_char d) = d"
proof -
  assume "d < 10"
  then have "d \<in> {0, 1, 2, 3, 4, 5, 6, 7, 8, 9}" by auto
  then show ?thesis by (auto simp: digit_val_def digit_char_def)
qed

lemma str_val_snoc: "str_val (s @ [c]) = 10 * str_val s + digit_val c"
  by (simp add: str_val_def)

lemma str_val_digits: "str_val (digits_of n) = n"
proof (induction n rule: digits_of.induct)
  case (1 n)
  show ?case
  proof (cases "n < 10")
    case True
    then show ?thesis
      by (subst digits_of.simps) (simp add: str_val_def digit_val_char)
  next
    case False
    with 1 have "str_val (digits_of (n div 10)) = n div 10" by simp
    with False show ?thesis
      by (subst digits_of.simps) (simp add: str_val_snoc digit_val_char)
  qed
qed

lemma str_val_zeros: "str_val (replicate k CHR ''0'' @ s) = str_val s"
proof -
  have "foldl (\<lambda>a c. 10 * a + digit_val c) 0 (replicate k CHR ''0'') = 0"
    by (induction k) (simp_all add: digit_val_def)
  then show ?thesis by (simp add: str_val_def)
qed

lemma str_val_burst_dir_name: "str_val (drop 6 (burst_dir_name k)) = k"
  by (simp add: burst_dir_name_def format_d_def zfill_def str_val_zeros str_val_digits)

text \<open>Two numbers never share a directory name.\<close>

lemma burst_dir_name_inj: "burst_dir_name j = burst_dir_name k \<Longrightarrow> j = k"
  by (metis str_val_burst_dir_name)

text \<open>
  The search returns, whatever exists: it returns the first number from its start
  whose name is not in use.
\<close>

lemma next_burst_num_spec:
  "\<exists>k. next_burst_num ds c = Some k \<and> c \<le> k \<and> burst_dir_name k \<notin> set ds \<and>
       (\<forall>j. c \<le> j \<and> j < k \<longrightarrow> burst_dir_name j \<in> set ds)"
proof -
  define b where "b = Suc (Max (insert 0 ((\<lambda>s. str_val (drop 6 s)) ` set ds)))"
  have free: "burst_dir_name j \<notin> set ds" if "b \<le> j" for j
  proof
    assume "burst_dir_name j \<in> set ds"
    then have "str_val (drop 6 (burst_dir_name j))
        \<in> insert 0 ((\<lambda>s. str_val (drop 6 s)) ` set ds)"
      by blast
    then have "str_val (drop 6 (burst_dir_name j))
        \<le> Max (insert 0 ((\<lambda>s. str_val (drop 6 s)) ` set ds))"
      by (intro Max_ge) auto
    with that show False by (simp add: str_val_burst_dir_name b_def)
  qed
  show ?thesis
  proof (induction "b - c" arbitrary: c rule: less_induct)
    case less
    show ?case
    proof (cases "burst_dir_name c \<in> set ds")
      case False
      then show ?thesis by (subst next_burst_num.simps) auto
    next
      case True
      with free have "c < b" by (meson not_le)
      then have "b - Suc c < b - c" by simp
      from less[OF this] obtain k where k: "next_burst_num ds (Suc c) = Some k" "Suc c \<le> k"
        "burst_dir_name k \<notin> set ds" "\<forall>j. Suc c \<le> j \<and> j < k \<longrightarrow> burst_dir_name j \<in> set ds"
        by blast
      have "\<forall>j. c \<le> j \<and> j < k \<longrightarrow> burst_dir_name j \<in> set ds"
      proof (intro allI impI)
        fix j assume "c \<le> j \<and> j < k"
        then show "burst_dir_name j \<in> set ds"
          using True k(4) by (cases "j = c") auto
      qed
      with True k show ?thesis by (subst next_burst_num.simps) auto
    qed
  qed
qed

lemma no_slash_digits: "CHR ''/'' \<notin> set (digits_of n)"
proof (induction n rule: digits_of.induct)
  case (1 n)
  have d: "digit_char d \<noteq> CHR ''/''" if "d < 10" for d
  proof -
    from that have "d \<in> {0, 1, 2, 3, 4, 5, 6, 7, 8, 9}" by auto
    then show ?thesis by (auto simp: digit_char_def)
  qed
  show ?case
  proof (cases "n < 10")
    case True
    then show ?thesis using d[of n] by (subst digits_of.simps) auto
  next
    case False
    with 1 show ?thesis using d[of "n mod 10"] by (subst digits_of.simps) auto
  qed
qed

lemma no_slash_burst_dir_name: "CHR ''/'' \<notin> set (burst_dir_name k)"
  by (simp add: burst_dir_name_def format_d_def zfill_def no_slash_digits)

text \<open>The path of an image tells the directory it is in.\<close>

lemma image_path_dir:
  assumes "image_path (burst_dir_name j) p = image_path (burst_dir_name k) q"
  shows "j = k"
proof -
  have tw: "takeWhile (\<lambda>c. c \<noteq> CHR ''/'') (image_path (burst_dir_name i) x) = burst_dir_name i"
    for i x
  proof -
    have "\<forall>c\<in>set (burst_dir_name i). c \<noteq> CHR ''/''"
      using no_slash_burst_dir_name[of i] by blast
    then show ?thesis
      by (simp add: image_path_def takeWhile_append2)
  qed
  from assms tw[of j p] tw[of k q] have "burst_dir_name j = burst_dir_name k" by simp
  then show ?thesis by (rule burst_dir_name_inj)
qed

section \<open>What the motor code leaves alone in main-v2.py\<close>

lemma emergency_stop_v2_side: "burst_side (emergency_stop_v2 w) = burst_side w"
  by (simp add: burst_side_def emergency_stop_v2_def sleep_v2_def)

lemma loop_step_v2_side: "burst_side (snd (loop_step_v2 e d w)) = burst_side w"
  by (simp add: burst_side_def v2_step_defs)

lemma move_loop_v2_side: "burst_side (snd (move_loop_v2 env d n w)) = burst_side w"
proof (induction n arbitrary: env w)
  case 0
  then show ?case by simp
next
  case (Suc n)
  obtain res w1 where st: "loop_step_v2 (next_ev env) d w = (res, w1)"
    by (cases "loop_step_v2 (next_ev env) d w")
  with loop_step_v2_side[of "next_ev env" d w] have "burst_side w1 = burst_side w" by simp
  with st Suc.IH[of "tl env" w1] show ?case by (cases res) simp_all
qed

lemma finally_v2_side: "burst_side (finally_v2 w) = burst_side w"
  by (simp add: burst_side_def finally_v2_def sleep_v2_def Let_def)

lemma move_steps_v2_side: "burst_side (snd (move_steps_v2 env steps speed w)) = burst_side w"
proof -
  have a: "burst_side (w\<lparr>state := IDLE\<rparr>) = burst_side w"
    "burst_side (w\<lparr>dir_pin := 0 < steps\<rparr>) = burst_side w"
    "burst_side ((wake_v2 (w\<lparr>dir_pin := 0 < steps\<rparr>))\<lparr>is_moving := True\<rparr>) = burst_side w"
    by (simp_all add: burst_side_def wake_v2_def)
  show ?thesis
    using move_loop_v2_side[of env "0 < steps" "nat \<bar>steps\<bar>"
        "(wake_v2 (w\<lparr>dir_pin := 0 < steps\<rparr>))\<lparr>is_moving := True\<rparr>"] a
    by (auto simp: move_steps_v2_def Let_def finally_v2_side split: prod.splits)
qed

lemma move_to_v2_side: "burst_side (snd (move_to_v2 env target speed w)) = burst_side w"
proof -
  have "burst_side (w\<lparr>state := MOVING, target_position := target\<rparr>) = burst_side w"
    by (simp add: burst_side_def)
  then show ?thesis
    using move_steps_v2_side[of env "target - current_position w" speed
        "w\<lparr>state := MOVING, target_position := target\<rparr>"]
    by (simp add: move_to_v2_def Let_def)
qed

section \<open>The counters of a burst in main-v2.py\<close>

lemma burst_inv_side: "burst_side w' = burst_side w \<Longrightarrow> burst_inv fl t w' = burst_inv fl t w"
  by (simp add: burst_side_def burst_inv_def)

lemma rounding_mono: "rounding fl \<Longrightarrow> x \<le> y \<Longrightarrow> fl x \<le> fl y"
  by (simp add: rounding_def)

lemma rounding_zero: "rounding fl \<Longrightarrow> fl 0 = 0"
  using of_int_0 by (metis abs_zero rounding_def zero_le_numeral zero_le_power)

lemma progress_v2_mono:
  assumes "rounding fl" and "0 < t" and "c \<le> c'"
  shows "progress_v2 fl c t \<le> progress_v2 fl c' t"
proof -
  from assms(2,3) have "(of_int c :: rat) / of_int t \<le> of_int c' / of_int t"
    by (simp add: divide_right_mono)
  then have "fl (of_int c / of_int t) * 100 \<le> fl (of_int c' / of_int t) * 100"
    using rounding_mono[OF assms(1)] by simp
  then show ?thesis unfolding progress_v2_def by (rule rounding_mono[OF assms(1)])
qed

lemma progress_v2_zero: "rounding fl \<Longrightarrow> progress_v2 fl 0 t = 0"
  by (simp add: progress_v2_def rounding_zero)

lemma save_burst_image_inv:
  assumes "rounding fl" and "burst_inv fl t w"
  shows "burst_inv fl t (save_burst_image fl dir buf w)"
proof (cases "burst_count w < burst_total w")
  case False
  with assms(2) show ?thesis by (simp add: save_burst_image_def Let_def)
next
  case True
  let ?c = "burst_count w" and ?t = "burst_total w"
  from assms(2) have tt: "?t = t" and c0: "0 \<le> ?c" by (simp_all add: burst_inv_def)
  from True c0 have t: "0 < ?t" by simp
  have "progress_v2 fl 0 ?t \<le> progress_v2 fl (?c + 1) ?t"
    by (rule progress_v2_mono[OF assms(1) t]) (use c0 in simp)
  then have nn: "0 \<le> progress_v2 fl (?c + 1) ?t"
    by (simp add: progress_v2_zero[OF assms(1)])
  have st: "save_burst_image fl dir buf w =
      w\<lparr>files := (image_path dir (position w), buf) # files w, burst_count := ?c + 1,
        burst_progress := progress_v2 fl (?c + 1) ?t\<rparr>"
    using True by (simp add: save_burst_image_def Let_def)
  show ?thesis
    unfolding st burst_inv_def using True c0 tt nn by simp
qed

lemma save_burst_image_progress:
  assumes "rounding fl" and "burst_inv fl t w"
  shows "burst_progress w \<le> burst_progress (save_burst_image fl dir buf w)"
proof (cases "burst_count w < burst_total w")
  case False
  then show ?thesis by (simp add: save_burst_image_def Let_def)
next
  case True
  let ?c = "burst_count w" and ?t = "burst_total w"
  from assms(2) have tt: "?t = t" and c0: "0 \<le> ?c"
    and bnd: "burst_progress w \<le> progress_v2 fl ?c ?t"
    by (simp_all add: burst_inv_def)
  from True c0 have t: "0 < ?t" by simp
  have up: "progress_v2 fl ?c ?t \<le> progress_v2 fl (?c + 1) ?t"
    by (rule progress_v2_mono[OF assms(1) t]) simp
  have "burst_progress (save_burst_image fl dir buf w) = progress_v2 fl (?c + 1) ?t"
    using True by (simp add: save_burst_image_def Let_def)
  with bnd up show ?thesis by simp
qed

lemma write_v2_progress:
  "rounding fl \<Longrightarrow> burst_inv fl t w \<Longrightarrow> burst_progress w \<le> burst_progress (write_v2 fl buf w)"
  by (simp add: write_v2_def save_burst_image_progress split: option.splits)

lemma write_v2_inv:
  "rounding fl \<Longrightarrow> burst_inv fl t w \<Longrightarrow> burst_inv fl t (write_v2 fl buf w)"
  by (simp add: write_v2_def save_burst_image_inv split: option.splits)

lemma ambient_v2_inv:
  "rounding fl \<Longrightarrow> burst_inv fl t w \<Longrightarrow> burst_inv fl t (ambient_v2 fl evs w)"
proof (induction evs arbitrary: w)
  case Nil
  then show ?case by simp
next
  case (Cons ev evs)
  then show ?case
    by (cases ev) (simp_all add: write_v2_inv burst_inv_side[OF emergency_stop_v2_side])
qed

lemma burst_step_v2_inv:
  assumes "rounding fl" and "burst_inv fl t w"
  shows "burst_inv fl t (snd (burst_step_v2 fl ph i start inc speed w))"
proof -
  let ?t = "target_pos_v2 fl start inc i"
  obtain res w1 where mv: "move_to_v2 (fst ph) ?t speed w = (res, w1)"
    by (cases "move_to_v2 (fst ph) ?t speed w")
  have "burst_side w1 = burst_side w"
    using mv move_to_v2_side[of "fst ph" ?t speed w] by simp
  from burst_inv_side[OF this] assms(2) have i1: "burst_inv fl t w1" by simp
  show ?thesis
    unfolding burst_step_v2_def Let_def mv
    using assms i1 ambient_v2_inv[OF assms(1)] by (cases res) simp_all
qed

lemma burst_loop_v2_inv:
  "rounding fl \<Longrightarrow> burst_inv fl t w \<Longrightarrow>
     burst_inv fl t (snd (burst_loop_v2 fl env r i start inc speed w))"
proof (induction r arbitrary: env i w)
  case 0
  then show ?case by simp
next
  case (Suc r)
  obtain res w1 where st: "burst_step_v2 fl (next_phase env) i start inc speed w = (res, w1)"
    by (cases "burst_step_v2 fl (next_phase env) i start inc speed w")
  with burst_step_v2_inv[OF Suc.prems, of "next_phase env" i start inc speed]
  have i1: "burst_inv fl t w1" by simp
  from st i1 Suc.IH[OF Suc.prems(1) i1] show ?case by (cases res) simp_all
qed

lemma burst_try_v2_inv:
  assumes "rounding fl" and "burst_inv fl t w"
  shows "burst_inv fl t (snd (burst_try_v2 fl env0 env start inc count speed w))"
proof -
  obtain res w1 where mv: "move_to_v2 (fst env0) start speed w = (res, w1)"
    by (cases "move_to_v2 (fst env0) start speed w")
  have "burst_side w1 = burst_side w"
    using mv move_to_v2_side[of "fst env0" start speed w] by simp
  from burst_inv_side[OF this] assms(2) have i1: "burst_inv fl t w1" by simp
  show ?thesis
  proof (cases res)
    case (Raises err)
    with mv i1 show ?thesis by (simp add: burst_try_v2_def)
  next
    case (Returns b)
    with mv burst_loop_v2_inv[OF assms(1) ambient_v2_inv[OF assms(1) i1]]
    show ?thesis by (simp add: burst_try_v2_def)
  qed
qed

lemma burst_setup_v2_inv:
  "rounding fl \<Longrightarrow> 0 \<le> count \<Longrightarrow> burst_progress w = 0 \<Longrightarrow>
     burst_inv fl count (burst_setup_v2 dir count w)"
  by (simp add: burst_inv_def burst_setup_v2_def progress_v2_zero)

section \<open>The end of a burst in main-v2.py\<close>

lemma burst_finally_v2_clean:
  "\<not> burst_mode (burst_finally_v2 w) \<and> burst_dir (burst_finally_v2 w) = None \<and>
   state (burst_finally_v2 w) \<noteq> BURST \<and> burst_progress (burst_finally_v2 w) = 0"
  by (simp add: burst_finally_v2_def Let_def)

lemma perform_burst_cleans_up:
  assumes "count \<noteq> 1"
  shows "\<exists>res w'. perform_burst fl env0 env start end count speed w = Some (res, w') \<and>
           \<not> burst_mode w' \<and> burst_dir w' = None \<and> state w' \<noteq> BURST \<and> burst_progress w' = 0"
proof -
  from next_burst_num_spec[of "dirs w" "burst_counter w"]
  obtain k where k: "next_burst_num (dirs w) (burst_counter w) = Some k" by blast
  from assms have "py_truediv (end - start) (count - 1) =
      Inr (of_int (end - start) / of_int (count - 1))"
    by (simp add: py_truediv_def)
  then show ?thesis
    using k burst_finally_v2_clean
    by (simp add: perform_burst_def Let_def split: prod.splits)
qed

lemma perform_burst_count_one:
  "\<exists>k. perform_burst fl env0 env start end 1 speed w =
     Some (Failed ZeroDivisionError, w\<lparr>burst_counter := k, dirs := burst_dir_name k # dirs w\<rparr>)"
proof -
  from next_burst_num_spec[of "dirs w" "burst_counter w"]
  obtain k where k: "next_burst_num (dirs w) (burst_counter w) = Some k" by blast
  then show ?thesis
    by (intro exI[of _ k]) (simp add: perform_burst_def Let_def py_truediv_def)
qed

section \<open>Directories and files of a burst in main-v2.py\<close>

lemma files_inv_side: "burst_side w' = burst_side w \<Longrightarrow> files_inv d w0 w \<Longrightarrow> files_inv d w0 w'"
  by (simp add: burst_side_def files_inv_def)

lemma write_v2_files: "files_inv d w0 w \<Longrightarrow> files_inv d w0 (write_v2 fl buf w)"
  by (auto simp: files_inv_def write_v2_def save_burst_image_def Let_def)

lemma ambient_v2_files: "files_inv d w0 w \<Longrightarrow> files_inv d w0 (ambient_v2 fl evs w)"
proof (induction evs arbitrary: w)
  case Nil
  then show ?case by simp
next
  case (Cons ev evs)
  then show ?case
    by (cases ev) (simp_all add: write_v2_files files_inv_side[OF emergency_stop_v2_side])
qed

lemma burst_step_v2_files:
  assumes "files_inv d w0 w"
  shows "files_inv d w0 (snd (burst_step_v2 fl ph i start inc speed w))"
proof -
  let ?t = "target_pos_v2 fl start inc i"
  obtain res w1 where mv: "move_to_v2 (fst ph) ?t speed w = (res, w1)"
    by (cases "move_to_v2 (fst ph) ?t speed w")
  have "burst_side w1 = burst_side w"
    using mv move_to_v2_side[of "fst ph" ?t speed w] by simp
  from files_inv_side[OF this assms] have i1: "files_inv d w0 w1" .
  show ?thesis
    unfolding burst_step_v2_def Let_def mv
    using assms i1 ambient_v2_files by (cases res) simp_all
qed

lemma burst_loop_v2_files:
  "files_inv d w0 w \<Longrightarrow> files_inv d w0 (snd (burst_loop_v2 fl env r i start inc speed w))"
proof (induction r arbitrary: env i w)
  case 0
  then show ?case by simp
next
  case (Suc r)
  obtain res w1 where st: "burst_step_v2 fl (next_phase env) i start inc speed w = (res, w1)"
    by (cases "burst_step_v2 fl (next_phase env) i start inc speed w")
  with burst_step_v2_files[OF Suc.prems, of fl "next_phase env" i start inc speed]
  have i1: "files_inv d w0 w1" by simp
  from st i1 Suc.IH[OF i1] show ?case by (cases res) simp_all
qed

lemma burst_try_v2_files:
  assumes "files_inv d w0 w"
  shows "files_inv d w0 (snd (burst_try_v2 fl env0 env start inc count speed w))"
proof -
  obtain res w1 where mv: "move_to_v2 (fst env0) start speed w = (res, w1)"
    by (cases "move_to_v2 (fst env0) start speed w")
  have "burst_side w1 = burst_side w"
    using mv move_to_v2_side[of "fst env0" start speed w] by simp
  from files_inv_side[OF this assms] have i1: "files_inv d w0 w1" .
  show ?thesis
  proof (cases res)
    case (Raises err)
    with mv i1 show ?thesis by (simp add: burst_try_v2_def)
  next
    case (Returns b)
    with mv burst_loop_v2_files[OF ambient_v2_files[OF i1]]
    show ?thesis by (simp add: burst_try_v2_def)
  qed
qed

lemma perform_burst_directory:
  "\<exists>k res w' new.
     next_burst_num (dirs w) (burst_counter w) = Some k \<and>
     perform_burst fl env0 env start end count speed w = Some (res, w') \<and>
     dirs w' = burst_dir_name k # dirs w \<and> burst_counter w' = k \<and>
     files w' = new @ files w \<and> fst ` set new \<subseteq> range (image_path (burst_dir_name k))"
proof -
  from next_burst_num_spec[of "dirs w" "burst_counter w"]
  obtain k where k: "next_burst_num (dirs w) (burst_counter w) = Some k" by blast
  let ?d = "burst_dir_name k"
  let ?w1 = "w\<lparr>burst_counter := k, dirs := ?d # dirs w\<rparr>"
  show ?thesis
  proof (cases "count = 1")
    case True
    with k have "perform_burst fl env0 env start end count speed w = Some (Failed ZeroDivisionError, ?w1)"
      by (simp add: perform_burst_def Let_def py_truediv_def)
    with k show ?thesis by (intro exI[of _ k] exI[of _ "Failed ZeroDivisionError"] exI[of _ ?w1] exI[of _ "[]"]) simp
  next
    case False
    let ?q = "fl (of_int (end - start) / of_int (count - 1))"
    obtain res w2 where tr: "burst_try_v2 fl env0 env start ?q count speed (burst_setup_v2 ?d count ?w1) = (res, w2)"
      by (cases "burst_try_v2 fl env0 env start ?q count speed (burst_setup_v2 ?d count ?w1)")
    have "files_inv ?d ?w1 (burst_setup_v2 ?d count ?w1)"
      by (simp add: files_inv_def burst_setup_v2_def)
    from burst_try_v2_files[OF this, of fl env0 env start ?q count speed] tr
    have "files_inv ?d ?w1 w2" by simp
    then obtain new where n: "dirs w2 = ?d # dirs w" "burst_counter w2 = k"
      "files w2 = new @ files w" "fst ` set new \<subseteq> range (image_path ?d)"
      by (auto simp: files_inv_def)
    have pb: "perform_burst fl env0 env start end count speed w = Some (res, burst_finally_v2 w2)"
      using k False tr by (simp add: perform_burst_def Let_def py_truediv_def)
    have fin: "dirs (burst_finally_v2 w2) = dirs w2" "burst_counter (burst_finally_v2 w2) = burst_counter w2"
      "files (burst_finally_v2 w2) = files w2"
      by (simp_all add: burst_finally_v2_def Let_def)
    show ?thesis
      using k pb n fin
      by (intro exI[of _ k] exI[of _ res] exI[of _ "burst_finally_v2 w2"] exI[of _ new]) simp
  qed
qed

section \<open>The burst of main-v3.py\<close>

lemma emergency_stop_v3_side: "burst_side_v3 (emergency_stop_v3 m) = burst_side_v3 m"
  by (simp add: burst_side_v3_def emergency_stop_v3_def sleep_v3_def)

lemma loop_step_v3_side: "burst_side_v3 (snd (loop_step_v3 e cb i n k d s a m)) = burst_side_v3 m"
  by (simp add: burst_side_v3_def v3_step_defs split: sum.splits)

lemma move_loop_v3_side:
  "burst_side_v3 (snd (move_loop_v3 env cb r i n k d s a m)) = burst_side_v3 m"
proof (induction r arbitrary: env i m)
  case 0
  then show ?case by simp
next
  case (Suc r)
  obtain res m1 where st: "loop_step_v3 (next_ev env) cb i n k d s a m = (res, m1)"
    by (cases "loop_step_v3 (next_ev env) cb i n k d s a m")
  with loop_step_v3_side[of "next_ev env" cb i n k d s a m]
  have "burst_side_v3 m1 = burst_side_v3 m" by simp
  with st Suc.IH[of "tl env" "i + 1" m1] show ?case by (cases res) simp_all
qed

lemma move_steps_v3_side:
  "burst_side_v3 (snd (move_steps_v3 fl env cb steps s a m)) = burst_side_v3 m"
proof (cases "emergency_stop_flag m")
  case True
  then show ?thesis by (simp add: move_steps_v3_def burst_side_v3_def)
next
  case False
  let ?m2 = "set_direction (if 0 < steps then 1 else - 1) (wake_up (m\<lparr>moving := True\<rparr>))"
  have m2: "burst_side_v3 ?m2 = burst_side_v3 m"
    by (simp add: burst_side_v3_def set_direction_def wake_up_def)
  show ?thesis
  proof (cases "steps_to_accel_v3 fl \<bar>steps\<bar> s a")
    case (Inl err)
    with False m2 show ?thesis by (simp add: move_steps_v3_def Let_def)
  next
    case (Inr k)
    obtain res m3 where lp: "move_loop_v3 env cb (nat \<bar>steps\<bar>) 0 \<bar>steps\<bar> k
        (if 0 < steps then 1 else - 1) s a ?m2 = (res, m3)"
      by (cases "move_loop_v3 env cb (nat \<bar>steps\<bar>) 0 \<bar>steps\<bar> k
        (if 0 < steps then 1 else - 1) s a ?m2")
    with move_loop_v3_side[of env cb "nat \<bar>steps\<bar>" 0 "\<bar>steps\<bar>" k
        "if 0 < steps then 1 else - 1" s a ?m2] m2
    have m3: "burst_side_v3 m3 = burst_side_v3 m" by simp
    then have "burst_side_v3 (sleep_v3 (m3\<lparr>moving := False\<rparr>)) = burst_side_v3 m"
      by (simp add: burst_side_v3_def sleep_v3_def)
    with False Inr lp m3 show ?thesis
      by (cases res) (simp_all add: move_steps_v3_def Let_def)
  qed
qed

lemma move_to_position_side:
  "burst_side_v3 (snd (move_to_position fl env cb target s a m)) = burst_side_v3 m"
  by (simp add: move_to_position_def Let_def move_steps_v3_side)

lemma py_int_mono: "x \<le> y \<Longrightarrow> py_int x \<le> py_int y"
proof -
  assume xy: "x \<le> y"
  consider "0 \<le> x" | "x < 0" "0 \<le> y" | "x < 0" "y < 0" by linarith
  then show ?thesis
  proof cases
    case 1
    with xy show ?thesis by (simp add: py_int_def floor_mono)
  next
    case 2
    then have a: "\<lceil>x\<rceil> \<le> 0" and b: "0 \<le> \<lfloor>y\<rfloor>"
      by (simp_all add: ceiling_le_zero)
    from 2 have "py_int x = \<lceil>x\<rceil>" "py_int y = \<lfloor>y\<rfloor>"
      by (simp_all add: py_int_def)
    with a b show ?thesis by linarith
  next
    case 3
    with xy show ?thesis by (simp add: py_int_def ceiling_mono)
  qed
qed

lemma progress_v3_mono:
  assumes "rounding fl" and "0 < n" and "i \<le> j"
  shows "progress_v3 fl i n \<le> progress_v3 fl j n"
proof -
  from assms(2,3) have "(of_int (i + 1) :: rat) / of_int n \<le> of_int (j + 1) / of_int n"
    by (simp add: divide_right_mono)
  then have "fl (of_int (i + 1) / of_int n) * 100 \<le> fl (of_int (j + 1) / of_int n) * 100"
    using rounding_mono[OF assms(1)] by simp
  then have "fl (fl (of_int (i + 1) / of_int n) * 100) \<le> fl (fl (of_int (j + 1) / of_int n) * 100)"
    by (rule rounding_mono[OF assms(1)])
  then show ?thesis unfolding progress_v3_def by (rule py_int_mono)
qed

lemma progress_v3_nonneg:
  assumes "rounding fl" and "0 < n" and "0 \<le> i"
  shows "0 \<le> progress_v3 fl i n"
proof -
  from assms(2,3) have "(0 :: rat) \<le> of_int (i + 1) / of_int n" by simp
  from rounding_mono[OF assms(1) this] have "0 \<le> fl (of_int (i + 1) / of_int n) * 100"
    by (simp add: rounding_zero[OF assms(1)])
  from rounding_mono[OF assms(1) this]
  have "0 \<le> fl (fl (of_int (i + 1) / of_int n) * 100)"
    by (simp add: rounding_zero[OF assms(1)])
  then show ?thesis by (simp add: progress_v3_def py_int_def)
qed

lemma burst_step_v3_effect:
  assumes "burst_step_v3 fl sh dir i pos n speed acc m = (res, m1)"
  shows "dirs_v3 m1 = dirs_v3 m \<and>
         (captured_v3 m1 = captured_v3 m \<or> captured_v3 m1 = image_path dir pos # captured_v3 m) \<and>
         (burst_progress_v3 m1 = burst_progress_v3 m \<or>
          burst_progress_v3 m1 = progress_v3 fl i n)"
proof -
  obtain stop menv ok where sh: "sh = (stop, menv, ok)" by (cases sh)
  let ?m0 = "if stop then emergency_stop_v3 m else m"
  let ?m1 = "?m0\<lparr>burst_progress_v3 := progress_v3 fl i n\<rparr>"
  obtain r2 m2 where mv: "move_to_position fl menv NoCallback pos speed acc ?m1 = (r2, m2)"
    by (cases "move_to_position fl menv NoCallback pos speed acc ?m1")
  have m0: "burst_side_v3 ?m0 = burst_side_v3 m"
    by (simp add: emergency_stop_v3_side)
  from mv move_to_position_side[of fl menv NoCallback pos speed acc ?m1]
  have "burst_side_v3 m2 = burst_side_v3 ?m1" by simp
  with m0 have m2: "dirs_v3 m2 = dirs_v3 m" "captured_v3 m2 = captured_v3 m"
    "burst_progress_v3 m2 = progress_v3 fl i n"
    by (simp_all add: burst_side_v3_def)
  from m0 have m0': "dirs_v3 ?m0 = dirs_v3 m" "captured_v3 ?m0 = captured_v3 m"
    "burst_progress_v3 ?m0 = burst_progress_v3 m"
    by (simp_all add: burst_side_v3_def)
  show ?thesis
  proof (cases "emergency_stop_flag ?m0")
    case True
    with assms sh have "m1 = ?m0\<lparr>emergency_stop_flag := False\<rparr>"
      by (simp add: burst_step_v3_def Let_def)
    with m0' show ?thesis by simp
  next
    case False
    with assms sh mv have "m1 = m2 \<or> m1 = m2\<lparr>captured_v3 := image_path dir pos # captured_v3 m2\<rparr>"
      by (cases r2) (auto simp: burst_step_v3_def Let_def split: if_splits)
    with m2 show ?thesis by auto
  qed
qed

lemma burst_step_v3_progress:
  assumes "rounding fl" and "0 < n"
    and "burst_progress_v3 m \<le> progress_v3 fl i n"
    and "burst_step_v3 fl sh dir i pos n speed acc m = (res, m1)"
  shows "burst_progress_v3 m \<le> burst_progress_v3 m1 \<and>
         burst_progress_v3 m1 \<le> progress_v3 fl (i + 1) n"
proof -
  have up: "progress_v3 fl i n \<le> progress_v3 fl (i + 1) n"
    by (rule progress_v3_mono[OF assms(1,2)]) simp
  from burst_step_v3_effect[OF assms(4)]
  have "burst_progress_v3 m1 = burst_progress_v3 m \<or> burst_progress_v3 m1 = progress_v3 fl i n"
    by simp
  with assms(3) up show ?thesis by auto
qed

lemma burst_loop_v3_effect:
  "burst_loop_v3 fl env dir i ps n speed acc m = (res, m') \<Longrightarrow>
     dirs_v3 m' = dirs_v3 m \<and>
     (\<exists>new. captured_v3 m' = new @ captured_v3 m \<and> length new \<le> length ps \<and>
            set new \<subseteq> range (image_path dir))"
proof (induction ps arbitrary: env i m)
  case Nil
  then show ?case by auto
next
  case (Cons pos ps)
  obtain r1 m1 where st: "burst_step_v3 fl (next_shot env) dir i pos n speed acc m = (r1, m1)"
    by (cases "burst_step_v3 fl (next_shot env) dir i pos n speed acc m")
  note ef = burst_step_v3_effect[OF st]
  have c1: "\<exists>new. captured_v3 m1 = new @ captured_v3 m \<and> length new \<le> 1 \<and>
      set new \<subseteq> range (image_path dir)"
  proof -
    from ef consider "captured_v3 m1 = captured_v3 m"
      | "captured_v3 m1 = image_path dir pos # captured_v3 m" by blast
    then show ?thesis
    proof cases
      case 1
      then show ?thesis by (intro exI[of _ "[]"]) simp
    next
      case 2
      then show ?thesis by (intro exI[of _ "[image_path dir pos]"]) simp
    qed
  qed
  show ?case
  proof (cases "r1 = Completed")
    case True
    with st Cons.prems have rec: "burst_loop_v3 fl (tl env) dir (i + 1) ps n speed acc m1 = (res, m')"
      by simp
    from Cons.IH[OF rec] obtain new2 where
      r: "dirs_v3 m' = dirs_v3 m1" "captured_v3 m' = new2 @ captured_v3 m1"
         "length new2 \<le> length ps" "set new2 \<subseteq> range (image_path dir)"
      by blast
    from c1 obtain new1 where n1: "captured_v3 m1 = new1 @ captured_v3 m" "length new1 \<le> 1"
      "set new1 \<subseteq> range (image_path dir)" by blast
    have "captured_v3 m' = (new2 @ new1) @ captured_v3 m \<and> length (new2 @ new1) \<le> length (pos # ps) \<and>
        set (new2 @ new1) \<subseteq> range (image_path dir)"
      using r n1 by auto
    then have "\<exists>new. captured_v3 m' = new @ captured_v3 m \<and> length new \<le> length (pos # ps) \<and>
        set new \<subseteq> range (image_path dir)" by blast
    with r ef show ?thesis by simp
  next
    case False
    with st Cons.prems have "m' = m1" by (cases r1) simp_all
    moreover from c1 have "\<exists>new. captured_v3 m1 = new @ captured_v3 m \<and>
        length new \<le> length (pos # ps) \<and> set new \<subseteq> range (image_path dir)"
      by fastforce
    ultimately show ?thesis using ef by simp
  qed
qed

lemma burst_loop_v3_progress:
  assumes "rounding fl" and "0 < n"
  shows "burst_progress_v3 m \<le> progress_v3 fl i n \<Longrightarrow>
     burst_loop_v3 fl env dir i ps n speed acc m = (res, m') \<Longrightarrow>
     burst_progress_v3 m \<le> burst_progress_v3 m'"
proof (induction ps arbitrary: env i m)
  case Nil
  then show ?case by auto
next
  case (Cons pos ps)
  obtain r1 m1 where st: "burst_step_v3 fl (next_shot env) dir i pos n speed acc m = (r1, m1)"
    by (cases "burst_step_v3 fl (next_shot env) dir i pos n speed acc m")
  note pr = burst_step_v3_progress[OF assms Cons.prems(1) st]
  show ?case
  proof (cases "r1 = Completed")
    case True
    with st Cons.prems(2) have rec: "burst_loop_v3 fl (tl env) dir (i + 1) ps n speed acc m1 = (res, m')"
      by simp
    from Cons.IH[OF _ rec] pr show ?thesis by linarith
  next
    case False
    with st Cons.prems(2) have "m' = m1" by (cases r1) simp_all
    with pr show ?thesis by simp
  qed
qed

section \<open>The positions of a burst in main-v3.py\<close>

lemma for_each_total: "for_each (\<lambda>x. Inr (g x)) xs = Inr (map g xs)"
  by (induction xs) simp_all

lemma burst_positions_v3_eq:
  assumes "2 \<le> n"
  shows "burst_positions_v3 fl s e n = Inr (map (\<lambda>i. py_round (computed_v3 fl s e n i)) [0..n - 1])"
proof -
  from assms have "burst_position_v3 fl s e n = (\<lambda>i. Inr (py_round (computed_v3 fl s e n i)))"
    by (intro ext) (simp add: burst_position_v3_def py_truediv_def computed_v3_def)
  then show ?thesis by (simp add: burst_positions_v3_def for_each_total)
qed

lemma py_round_int: "py_round (of_int k) = k"
  by (simp add: py_round_def)

lemma py_round_near: "\<bar>of_int (py_round x) - x\<bar> \<le> 1 / 2"
proof -
  have "of_int \<lfloor>x\<rfloor> \<le> x" "x < of_int \<lfloor>x\<rfloor> + 1" by linarith+
  then show ?thesis by (auto simp: py_round_def Let_def)
qed



lemma py_round_mono: "x \<le> y \<Longrightarrow> py_round x \<le> py_round y"
proof -
  assume xy: "x \<le> y"
  have fx: "of_int \<lfloor>x\<rfloor> \<le> x" "x < of_int \<lfloor>x\<rfloor> + 1" by linarith+
  have fy: "of_int \<lfloor>y\<rfloor> \<le> y" "y < of_int \<lfloor>y\<rfloor> + 1" by linarith+
  have bx: "\<lfloor>x\<rfloor> \<le> py_round x" "py_round x \<le> \<lfloor>x\<rfloor> + 1"
    by (auto simp: py_round_def Let_def)
  have "by": "\<lfloor>y\<rfloor> \<le> py_round y" by (auto simp: py_round_def Let_def)
  from xy have "\<lfloor>x\<rfloor> \<le> \<lfloor>y\<rfloor>" by (rule floor_mono)
  then consider "\<lfloor>x\<rfloor> < \<lfloor>y\<rfloor>" | "\<lfloor>x\<rfloor> = \<lfloor>y\<rfloor>" by linarith
  then show ?thesis
  proof cases
    case 1
    with bx "by" show ?thesis by linarith
  next
    case 2
    with xy show ?thesis by (auto simp: py_round_def Let_def)
  qed
qed





section \<open>A whole burst\<close>

lemma rounding_exact: "rounding exact"
  by (simp add: rounding_def exact_def)

lemma burst_finally_v2_keeps:
  "burst_count (burst_finally_v2 w) = burst_count w \<and>
   burst_total (burst_finally_v2 w) = burst_total w"
  by (simp add: burst_finally_v2_def Let_def)

lemma perform_burst_counters:
  assumes "rounding fl" and "2 \<le> n" and "burst_progress w = 0"
  shows "\<exists>res w'. perform_burst fl env0 env start end n speed w = Some (res, w') \<and>
           burst_total w' = n \<and> 0 \<le> burst_count w' \<and> burst_count w' \<le> n \<and>
           burst_progress w' = 0"
proof -
  from next_burst_num_spec[of "dirs w" "burst_counter w"]
  obtain k where k: "next_burst_num (dirs w) (burst_counter w) = Some k" by blast
  let ?d = "burst_dir_name k"
  let ?w1 = "w\<lparr>burst_counter := k, dirs := ?d # dirs w\<rparr>"
  let ?q = "fl (of_int (end - start) / of_int (n - 1))"
  obtain res w2 where tr:
    "burst_try_v2 fl env0 env start ?q n speed (burst_setup_v2 ?d n ?w1) = (res, w2)"
    by (cases "burst_try_v2 fl env0 env start ?q n speed (burst_setup_v2 ?d n ?w1)")
  from assms(2,3) have "burst_inv fl n (burst_setup_v2 ?d n ?w1)"
    by (intro burst_setup_v2_inv[OF assms(1)]) simp_all
  from burst_try_v2_inv[OF assms(1) this, of env0 env start ?q n speed] tr
  have inv: "burst_inv fl n w2" by simp
  have pb: "perform_burst fl env0 env start end n speed w = Some (res, burst_finally_v2 w2)"
    using k assms(2) tr by (simp add: perform_burst_def Let_def py_truediv_def)
  show ?thesis
    using pb inv burst_finally_v2_keeps[of w2] burst_finally_v2_clean[of w2]
    by (intro exI[of _ res] exI[of _ "burst_finally_v2 w2"]) (simp add: burst_inv_def)
qed

lemma burst_positions_v3_length:
  assumes "2 \<le> n"
  shows "\<exists>ps. burst_positions_v3 fl s e n = Inr ps \<and> length ps = nat n"
  unfolding burst_positions_v3_eq[OF assms] by simp

lemma burst_thread_effect:
  assumes "2 \<le> n"
  shows "\<exists>k res m' new.
           next_burst_num (dirs_v3 m) 1 = Some k \<and>
           burst_thread fl env0 env s e n speed acc m = Some (res, m') \<and>
           dirs_v3 m' = burst_dir_name k # dirs_v3 m \<and>
           captured_v3 m' = new @ captured_v3 m \<and> length new \<le> nat n \<and>
           set new \<subseteq> range (image_path (burst_dir_name k))"
proof -
  from next_burst_num_spec[of "dirs_v3 m" 1]
  obtain k where k: "next_burst_num (dirs_v3 m) 1 = Some k" by blast
  let ?d = "burst_dir_name k"
  let ?m1 = "m\<lparr>dirs_v3 := ?d # dirs_v3 m\<rparr>"
  obtain r2 m2 where mv: "move_to_position fl env0 NoCallback s speed acc ?m1 = (r2, m2)"
    by (cases "move_to_position fl env0 NoCallback s speed acc ?m1")
  from mv move_to_position_side[of fl env0 NoCallback s speed acc ?m1]
  have m2: "dirs_v3 m2 = ?d # dirs_v3 m" "captured_v3 m2 = captured_v3 m"
    by (simp_all add: burst_side_v3_def)
  from burst_positions_v3_length[OF assms] obtain ps where
    ps: "burst_positions_v3 fl s e n = Inr ps" and len: "length ps = nat n" by blast
  obtain r3 m3 where lp: "burst_loop_v3 fl env ?d 0 ps n speed acc m2 = (r3, m3)"
    by (cases "burst_loop_v3 fl env ?d 0 ps n speed acc m2")
  from burst_loop_v3_effect[OF lp]
  obtain new where ef0:
    "dirs_v3 m3 = dirs_v3 m2" "captured_v3 m3 = new @ captured_v3 m2"
    "length new \<le> length ps" "set new \<subseteq> range (image_path ?d)"
    by blast
  have ef: "dirs_v3 m3 = ?d # dirs_v3 m" "captured_v3 m3 = new @ captured_v3 m"
    "length new \<le> nat n"
    using ef0 m2 len by simp_all
  have unf: "burst_thread fl env0 env s e n speed acc m =
      Some (case r2 of Failed err \<Rightarrow> (Failed err, m2)
            | _ \<Rightarrow> (case r3 of Failed err \<Rightarrow> (Failed err, m3)
                     | _ \<Rightarrow> (r3, m3\<lparr>burst_progress_v3 := 0\<rparr>)))"
    by (cases r2; cases r3;
        simp only: burst_thread_def k option.case Let_def mv prod.case ps sum.case lp
          run_result.case)
  show ?thesis
  proof (cases "\<exists>err. r2 = Failed err")
    case True
    then obtain err where "r2 = Failed err" by blast
    with unf have "burst_thread fl env0 env s e n speed acc m = Some (Failed err, m2)"
      by simp
    with k m2 show ?thesis
      by (intro exI[of _ k] exI[of _ "Failed err"] exI[of _ m2] exI[of _ "[]"]) simp
  next
    case False
    show ?thesis
    proof (cases "\<exists>err. r3 = Failed err")
      case True
      then obtain err where "r3 = Failed err" by blast
      with False unf have "burst_thread fl env0 env s e n speed acc m = Some (Failed err, m3)"
        by (cases r2) simp_all
      with k ef ef0 show ?thesis
        by (intro exI[of _ k] exI[of _ "Failed err"] exI[of _ m3] exI[of _ new]) simp
    next
      case nf: False
      with False unf
      have "burst_thread fl env0 env s e n speed acc m = Some (r3, m3\<lparr>burst_progress_v3 := 0\<rparr>)"
        by (cases r2; cases r3) simp_all
      with k ef ef0 show ?thesis
        by (intro exI[of _ k] exI[of _ r3] exI[of _ "m3\<lparr>burst_progress_v3 := 0\<rparr>"] exI[of _ new])
           simp
    qed
  qed
qed

lemma clean_first_two:
  assumes "\<forall>j. burst_dir_name j \<notin> set ds"
  shows "next_burst_num ds 1 = Some 1 \<and> next_burst_num (burst_dir_name 1 # ds) 1 = Some 2"
proof -
  have a: "next_burst_num ds 1 = Some 1"
    using assms by (subst next_burst_num.simps) simp
  have ne: "burst_dir_name 2 \<noteq> burst_dir_name 1"
    using burst_dir_name_inj[of 2 1] by auto
  have "next_burst_num (burst_dir_name 1 # ds) 2 = Some 2"
    using assms ne by (subst next_burst_num.simps) simp
  then have "next_burst_num (burst_dir_name 1 # ds) 1 = Some 2"
    by (subst next_burst_num.simps) (simp add: numeral_2_eq_2)
  with a show ?thesis by simp
qed

section \<open>The length of the ramp\<close>

lemma floor_min_rat: "\<lfloor>min x y\<rfloor> = min \<lfloor>x\<rfloor> \<lfloor>y :: rat\<rfloor>"
  by (metis floor_mono min.absorb1 min.absorb2 linear)

lemma py_int_truediv:
  "0 \<le> p \<Longrightarrow> 0 < q \<Longrightarrow> py_int (of_int p / of_int q) = p div q"
  by (simp add: py_int_def floor_divide_of_int_eq)

lemma half_floor: "\<lfloor>(of_int n :: rat) / 2\<rfloor> = n div 2"
  using floor_divide_of_int_eq[of n 2, where ?'a = rat] by simp

section \<open>A whole move in main-v2.py\<close>

text \<open>
  \<^verbatim>\<open>_move_steps\<close> returns \<^verbatim>\<open>steps_remaining == 0\<close>. Whether the move runs to its
  end or is stopped, the position has moved by exactly the pulses sent, in the direction
  of the move; the move returns \<^verbatim>\<open>True\<close> exactly when all \<open>\<bar>steps\<bar>\<close> pulses were sent.
\<close>

lemma move_steps_v2_tracks:
  assumes "move_steps_v2 env steps speed w = (Returns b, w')"
  shows "pulses w' - pulses w \<le> nat \<bar>steps\<bar> \<and> pulses w \<le> pulses w' \<and>
         current_position w' =
           current_position w + (if 0 < steps then 1 else - 1) * int (pulses w' - pulses w) \<and>
         (b \<longleftrightarrow> pulses w' - pulses w = nat \<bar>steps\<bar>) \<and>
         (b \<longrightarrow> current_position w' = current_position w + steps)"
proof (cases "steps = 0")
  case True
  with assms show ?thesis by (auto simp: move_steps_v2_def)
next
  case False
  let ?w2 = "(wake_v2 (w\<lparr>dir_pin := 0 < steps\<rparr>))\<lparr>is_moving := True\<rparr>"
  obtain r w3 where lp: "move_loop_v2 env (0 < steps) (nat \<bar>steps\<bar>) ?w2 = (r, w3)"
    by (cases "move_loop_v2 env (0 < steps) (nat \<bar>steps\<bar>) ?w2")
  from assms False lp have b: "b = (r = 0)" and w': "w' = finally_v2 w3"
    by (auto simp: move_steps_v2_def Let_def split: if_splits)
  have fin: "pulses (finally_v2 w3) = pulses w3"
            "current_position (finally_v2 w3) = current_position w3"
    by (simp_all add: finally_v2_def sleep_v2_def Let_def)
  have st: "pulses ?w2 = pulses w" "current_position ?w2 = current_position w"
    by (simp_all add: wake_v2_def)
  from move_loop_v2_track[OF lp] st
  have r: "r \<le> nat \<bar>steps\<bar>" and p: "pulses w3 = pulses w + (nat \<bar>steps\<bar> - r)"
    and c: "current_position w3 =
              current_position w + (if 0 < steps then 1 else - 1) * int (nat \<bar>steps\<bar> - r)"
    by simp_all
  from p fin w' have d: "pulses w' - pulses w = nat \<bar>steps\<bar> - r" and le: "pulses w \<le> pulses w'"
    by simp_all
  have "b \<longleftrightarrow> nat \<bar>steps\<bar> - r = nat \<bar>steps\<bar>"
    using b r False by auto
  moreover have "b \<longrightarrow> current_position w' = current_position w + steps"
    using b c fin w' by auto
  ultimately show ?thesis
    using d le c fin w' by simp
qed

lemma move_to_v2_reaches_target:
  assumes "move_to_v2 env target speed w = (Returns True, w')"
  shows "current_position w' = target"
proof -
  from assms have ns: "state w \<noteq> EMERGENCY_STOP"
    by (auto simp: move_to_v2_def)
  with assms have "move_steps_v2 env (target - current_position w) speed
      (w\<lparr>state := MOVING, target_position := target\<rparr>) = (Returns True, w')"
    by (simp add: move_to_v2_def Let_def)
  from move_steps_v2_tracks[OF this] show ?thesis by simp
qed

section \<open>Roundings to the nearest double\<close>

lemma double_rounding_exact: "double_rounding exact"
  by (simp add: double_rounding_def rounding_def exact_def)

lemma double_rounding_mono: "double_rounding fl \<Longrightarrow> x \<le> y \<Longrightarrow> fl x \<le> fl y"
  by (simp add: double_rounding_def rounding_def)

lemma double_rounding_int: "double_rounding fl \<Longrightarrow> \<bar>k\<bar> \<le> 2 ^ 53 \<Longrightarrow> fl (of_int k) = of_int k"
  by (simp add: double_rounding_def rounding_def)

lemma double_rounding_half:
  "double_rounding fl \<Longrightarrow> \<bar>k\<bar> \<le> 2 ^ 53 \<Longrightarrow> fl (of_int k / 2) = of_int k / 2"
  by (simp add: double_rounding_def)

lemma double_rounding_normal:
  "double_rounding fl \<Longrightarrow> 1 / 2 ^ 1022 \<le> \<bar>x\<bar> \<Longrightarrow> \<bar>x\<bar> \<le> 2 ^ 1023 \<Longrightarrow>
     \<bar>fl x - x\<bar> \<le> \<bar>x\<bar> / 2 ^ 53"
  by (simp add: double_rounding_def)


lemma of_int_less_pow53: "k < 2 ^ 53 \<Longrightarrow> (of_int k :: rat) < 2 ^ 53"
proof -
  assume "k < 2 ^ 53"
  then have "(of_int k :: rat) < of_int (2 ^ 53)" by (simp only: of_int_less_iff)
  then show ?thesis by simp
qed

lemma ramp_quotient:
  assumes dr: "double_rounding fl" and s: "0 < s" "s * s < 2 ^ 53" and a: "0 < a"
  shows "py_int (fl (of_int (s * s) / of_int (2 * a))) = (s * s) div (2 * a)"
proof -
  define P where "P = s * s"
  define Q where "Q = 2 * a"
  define q :: rat where "q = of_int P / of_int Q"
  define z where "z = P div Q"
  have P: "0 < P" "P < 2 ^ 53" using s by (simp_all add: P_def)
  have Q: "0 < Q" using a by (simp add: Q_def)
  have Qr: "(0::rat) < of_int Q" using Q by simp
  have fz: "\<lfloor>q\<rfloor> = z" unfolding q_def z_def by (rule floor_divide_of_int_eq)
  have z0: "0 \<le> z" using P Q by (simp add: z_def pos_imp_zdiv_nonneg_iff)
  have "P div Q \<le> P div 1" using P Q by (intro zdiv_mono2) simp_all
  then have zP: "z \<le> P" by (simp add: z_def)
  have q0: "0 < q" using P Q by (simp add: q_def)
  have "of_int \<lfloor>q\<rfloor> \<le> q" by (rule of_int_floor_le)
  then have "of_int z \<le> q" by (simp only: fz)
  from double_rounding_mono[OF dr this] have "fl (of_int z) \<le> fl q" .
  moreover have "\<bar>z\<bar> \<le> 2 ^ 53" using z0 zP P by linarith
  ultimately have lo: "of_int z \<le> fl q" using double_rounding_int[OF dr, of z] by simp
  have "P < (z + 1) * Q"
  proof -
    have "P = Q * z + P mod Q" by (simp add: z_def)
    moreover have "P mod Q < Q" using Q by simp
    ultimately show ?thesis by (simp add: algebra_simps)
  qed
  then have "P + 1 \<le> (z + 1) * Q" by simp
  then have "(of_int (P + 1) :: rat) \<le> of_int ((z + 1) * Q)" by (simp only: of_int_le_iff)
  then have "(of_int P :: rat) + 1 \<le> (of_int z + 1) * of_int Q" by simp
  then have "((of_int P :: rat) + 1) / of_int Q \<le> of_int z + 1"
    using Qr by (simp add: pos_divide_le_eq)
  then have up: "q + 1 / of_int Q \<le> of_int z + 1"
    by (simp add: q_def add_divide_distrib)
  have hi: "fl q < of_int z + 1"
  proof (cases "q < 1 / 2")
    case True
    then have "q \<le> of_int 1 / 2" by simp
    from double_rounding_mono[OF dr this] double_rounding_half[OF dr, of 1]
    have "fl q \<le> 1 / 2" by simp
    moreover have "(0::rat) \<le> of_int z" using z0 by simp
    ultimately show ?thesis by linarith
  next
    case False
    have "1 \<le> Q" using Q by simp
    then have "(1::rat) \<le> of_int Q" by simp
    then have "of_int P / of_int Q \<le> (of_int P :: rat) / 1"
      using P by (intro divide_left_mono) simp_all
    then have "q \<le> of_int P" by (simp add: q_def)
    also have "\<dots> \<le> 2 ^ 53" using of_int_less_pow53[OF P(2)] by simp
    also have "\<dots> \<le> (2::rat) ^ 1023" by (rule power_increasing) simp_all
    finally have b2: "\<bar>q\<bar> \<le> 2 ^ 1023" using q0 by simp
    have "(1::rat) / 2 ^ 1022 \<le> 1 / 2 ^ 1" by (intro divide_left_mono power_increasing) simp_all
    with False q0 have b1: "1 / 2 ^ 1022 \<le> \<bar>q\<bar>" by simp
    from double_rounding_normal[OF dr b1 b2] have "fl q - q \<le> \<bar>q\<bar> / 2 ^ 53" by linarith
    moreover have "\<bar>q\<bar> = q" using q0 by simp
    ultimately have e: "fl q \<le> q + q / 2 ^ 53" by (simp only:)
    have "(of_int P :: rat) / 2 ^ 53 < 1" using of_int_less_pow53[OF P(2)] by simp
    then have "(of_int P :: rat) / 2 ^ 53 / of_int Q < 1 / of_int Q"
      using Qr by (rule divide_strict_right_mono)
    then have "q / 2 ^ 53 < 1 / of_int Q" by (simp add: q_def)
    with e up show ?thesis by linarith
  qed
  have "\<lfloor>fl q\<rfloor> = z" by (rule floor_unique) (use lo hi in simp_all)
  moreover have "(0::rat) \<le> of_int z" using z0 by simp
  then have "0 \<le> fl q" using lo by linarith
  ultimately show ?thesis by (simp add: py_int_def q_def P_def Q_def z_def)
qed











lemma py_round_unique:
  assumes "\<bar>x - of_int r\<bar> < 1 / 2"
  shows "py_round x = r"
proof (cases "of_int r \<le> x")
  case True
  have f: "\<lfloor>x\<rfloor> = r" by (rule floor_unique) (use True assms in linarith)+
  with assms True show ?thesis by (simp add: py_round_def Let_def)
next
  case False
  have suc: "rat_of_int (r - 1) = of_int r - 1" by simp
  have f: "\<lfloor>x\<rfloor> = r - 1" by (rule floor_unique) (use False assms suc in linarith)+
  with assms False show ?thesis by (simp add: py_round_def Let_def)
qed















lemma perform_burst_increment:
  assumes "count \<noteq> 1" and "next_burst_num (dirs w) (burst_counter w) = Some k"
  shows "perform_burst fl env0 env start end count speed w =
     Some (case burst_try_v2 fl env0 env start (step_increment_v2 fl start end count) count speed
                  (burst_setup_v2 (burst_dir_name k) count
                     (w\<lparr>burst_counter := k, dirs := burst_dir_name k # dirs w\<rparr>)) of
             (res, w2) \<Rightarrow> (res, burst_finally_v2 w2))"
  using assms by (simp add: perform_burst_def Let_def py_truediv_def step_increment_v2_def)

section \<open>The rounding \<open>dbl\<close>\<close>

lemma pow2_powi: "pow2 k = 2 powi k"
  by (simp add: pow2_def power_int_def power_one_over inverse_eq_divide)

lemma pow2_pos: "0 < pow2 k"
  by (simp add: pow2_powi zero_less_power_int)

lemma pow2_add: "pow2 (a + b) = pow2 a * pow2 b"
  by (simp add: pow2_powi power_int_add)

lemma pow2_mono: "a \<le> b \<Longrightarrow> pow2 a \<le> pow2 b"
  by (simp add: pow2_powi power_int_increasing)

lemma pow2_strict_mono: "a < b \<Longrightarrow> pow2 a < pow2 b"
  by (simp add: pow2_powi power_int_strict_increasing)

lemma pow2_le_D: "pow2 a \<le> pow2 b \<Longrightarrow> a \<le> b"
  using pow2_strict_mono[of b a] by (cases "a \<le> b") auto

lemma pow2_less_D: "pow2 a < pow2 b \<Longrightarrow> a < b"
  using pow2_mono[of b a] by (cases "a < b") auto

lemma pow2_nat: "pow2 (int k) = 2 ^ k"
  by (simp add: pow2_def)

lemma pow2_neg: "pow2 (- int k) = 1 / 2 ^ k"
  by (simp add: pow2_powi power_int_minus_divide power_int_of_nat)

lemma pow2_diff: "pow2 (a - b) = pow2 a / pow2 b"
proof -
  have "pow2 a = pow2 (a - b) * pow2 b" using pow2_add[of "a - b" b] by simp
  then show ?thesis using pow2_pos[of b] by simp
qed

lemma bit_length_spec: "0 < n \<Longrightarrow> 2 ^ (bit_length n - 1) \<le> n \<and> n < 2 ^ bit_length n"
proof (induction n rule: bit_length.induct)
  case (1 n)
  show ?case
  proof (cases "n div 2 \<le> 0")
    case True
    with "1.prems" have "n = 1" by presburger
    then show ?thesis by (simp add: bit_length.simps[of 1] bit_length.simps[of 0])
  next
    case False
    then have pos: "0 < n div 2" by simp
    from "1.prems" have nz: "\<not> n \<le> 0" by simp
    from "1.IH"[OF nz pos] have ih: "2 ^ (bit_length (n div 2) - 1) \<le> n div 2"
      "n div 2 < 2 ^ bit_length (n div 2)" by simp_all
    have b: "bit_length n = Suc (bit_length (n div 2))"
      using nz by (subst bit_length.simps) simp
    have b0: "0 < bit_length (n div 2)"
      using pos by (subst bit_length.simps) simp
    then have p: "(2::int) ^ bit_length (n div 2) = 2 * 2 ^ (bit_length (n div 2) - 1)"
      by (cases "bit_length (n div 2)") simp_all
    have "2 * (n div 2) \<le> n" "n < 2 * (n div 2) + 2" by presburger+
    with ih p show ?thesis unfolding b by simp
  qed
qed

lemma binade_spec:
  assumes "x \<noteq> 0"
  shows "pow2 (binade x) \<le> \<bar>x\<bar> \<and> \<bar>x\<bar> < pow2 (binade x + 1)"
proof -
  obtain p q where pq: "quotient_of \<bar>x\<bar> = (p, q)" by (cases "quotient_of \<bar>x\<bar>")
  from quotient_of_denom_pos[OF pq] have q: "0 < q" .
  from quotient_of_div[OF pq] have x: "\<bar>x\<bar> = of_int p / of_int q" .
  from assms have "0 < \<bar>x\<bar>" by simp
  with x q have p: "0 < p" by (simp add: zero_less_divide_iff)
  define bp where "bp = bit_length p"
  define bq where "bq = bit_length q"
  define d where "d = int bp - int bq"
  from bit_length_spec[OF p] have P: "2 ^ (bp - 1) \<le> p" "p < 2 ^ bp" by (simp_all add: bp_def)
  from bit_length_spec[OF q] have Q: "2 ^ (bq - 1) \<le> q" "q < 2 ^ bq" by (simp_all add: bq_def)
  have bp0: "0 < bp" using p unfolding bp_def by (subst bit_length.simps) simp
  have bq0: "0 < bq" using q unfolding bq_def by (subst bit_length.simps) simp
  have Pr: "(2::rat) ^ (bp - 1) \<le> of_int p" "(of_int p :: rat) < 2 ^ bp"
  proof -
    from P(1) have "(of_int (2 ^ (bp - 1)) :: rat) \<le> of_int p" by (simp only: of_int_le_iff)
    then show "(2::rat) ^ (bp - 1) \<le> of_int p" by simp
    from P(2) have "(of_int p :: rat) < of_int (2 ^ bp)" by (simp only: of_int_less_iff)
    then show "(of_int p :: rat) < 2 ^ bp" by simp
  qed
  have Qr: "(2::rat) ^ (bq - 1) \<le> of_int q" "(of_int q :: rat) < 2 ^ bq"
  proof -
    from Q(1) have "(of_int (2 ^ (bq - 1)) :: rat) \<le> of_int q" by (simp only: of_int_le_iff)
    then show "(2::rat) ^ (bq - 1) \<le> of_int q" by simp
    from Q(2) have "(of_int q :: rat) < of_int (2 ^ bq)" by (simp only: of_int_less_iff)
    then show "(of_int q :: rat) < 2 ^ bq" by simp
  qed
  have qr: "(0::rat) < of_int q" and pr: "(0::rat) < of_int p" using p q by simp_all
  have lo: "pow2 (d - 1) \<le> \<bar>x\<bar>"
  proof -
    have "pow2 (d - 1) = pow2 (int (bp - 1)) / pow2 (int bq)"
      using bp0 by (simp add: d_def pow2_diff[symmetric] of_nat_diff algebra_simps)
    also have "\<dots> = 2 ^ (bp - 1) / 2 ^ bq" by (simp only: pow2_nat)
    also have "\<dots> \<le> of_int p / 2 ^ bq" using Pr(1) by (simp add: divide_right_mono)
    also have "\<dots> \<le> of_int p / of_int q"
      using Qr(2) qr pr by (intro divide_left_mono) simp_all
    finally show ?thesis by (simp only: x)
  qed
  have hi: "\<bar>x\<bar> < pow2 (d + 1)"
  proof -
    have "of_int p / of_int q < (2::rat) ^ bp / of_int q"
      using Pr(2) qr by (simp add: divide_strict_right_mono)
    also have "\<dots> \<le> 2 ^ bp / 2 ^ (bq - 1)"
      using Qr(1) qr by (intro divide_left_mono mult_pos_pos) simp_all
    also have "\<dots> = pow2 (int bp) / pow2 (int (bq - 1))" by (simp only: pow2_nat)
    also have "\<dots> = pow2 (d + 1)"
      using bq0 by (simp add: d_def pow2_diff[symmetric] of_nat_diff algebra_simps)
    finally show ?thesis by (simp only: x)
  qed
  have b: "binade x = (if pow2 d \<le> \<bar>x\<bar> then d else d - 1)"
    by (simp add: binade_def pq d_def bp_def bq_def Let_def)
  show ?thesis
  proof (cases "pow2 d \<le> \<bar>x\<bar>")
    case True
    with b hi show ?thesis by simp
  next
    case False
    with b lo show ?thesis by simp
  qed
qed

lemma binade_minus: "binade (- x) = binade x"
  by (simp add: binade_def)

lemma binade_mono:
  assumes "x \<noteq> 0" and "\<bar>x\<bar> \<le> \<bar>y\<bar>"
  shows "binade x \<le> binade y"
proof -
  from assms have y: "y \<noteq> 0" by auto
  from binade_spec[OF assms(1)] binade_spec[OF y] assms(2)
  have "pow2 (binade x) < pow2 (binade y + 1)" by linarith
  from pow2_less_D[OF this] show ?thesis by simp
qed

lemma py_round_minus: "py_round (- x) = - py_round x"
proof (cases "x - of_int \<lfloor>x\<rfloor> = 1 / 2")
  case True
  have suc: "rat_of_int (- \<lfloor>x\<rfloor> - 1) = - of_int \<lfloor>x\<rfloor> - 1" by simp
  have f: "\<lfloor>- x\<rfloor> = - \<lfloor>x\<rfloor> - 1"
    by (rule floor_unique) (use True suc in linarith)+
  have d: "- x - of_int (- \<lfloor>x\<rfloor> - 1) = 1 / 2" using True by simp
  show ?thesis
    using True d by (simp add: py_round_def Let_def f)
next
  case False
  have a: "\<bar>of_int (py_round x) - x\<bar> \<le> 1 / 2" by (rule py_round_near)
  have ne: "\<bar>of_int (py_round x) - x\<bar> \<noteq> 1 / 2"
  proof -
    have "of_int \<lfloor>x\<rfloor> \<le> x" "x < of_int \<lfloor>x\<rfloor> + 1" by linarith+
    with False show ?thesis by (auto simp: py_round_def Let_def)
  qed
  from a ne have "\<bar>- x - of_int (- py_round x)\<bar> < 1 / 2" by simp
  from py_round_unique[OF this] show ?thesis .
qed

lemma dbl_zero: "dbl 0 = 0"
  by (simp add: dbl_def)

lemma dbl_minus: "dbl (- x) = - dbl x"
  by (simp add: dbl_def binade_minus py_round_minus Let_def)

text \<open>The unit in the last place of the double nearest to \<open>x\<close>.\<close>

lemma dbl_unfold:
  assumes "x \<noteq> 0"
  shows "dbl x = of_int (py_round (x / pow2 (max (binade x) (- 1022) - 52))) *
           pow2 (max (binade x) (- 1022) - 52)"
  using assms by (simp add: dbl_def Let_def)

lemma dbl_error:
  assumes "x \<noteq> 0"
  shows "\<bar>dbl x - x\<bar> \<le> pow2 (max (binade x) (- 1022) - 52) / 2"
proof -
  define u where "u = pow2 (max (binade x) (- 1022) - 52)"
  have u: "0 < u" by (simp add: u_def pow2_pos)
  have "dbl x - x = (of_int (py_round (x / u)) - x / u) * u"
    using u by (simp add: dbl_unfold[OF assms] u_def[symmetric] left_diff_distrib)
  then have "\<bar>dbl x - x\<bar> = \<bar>of_int (py_round (x / u)) - x / u\<bar> * u"
    using u by (simp add: abs_mult)
  also have "\<dots> \<le> 1 / 2 * u"
    using py_round_near[of "x / u"] u by (intro mult_right_mono) simp_all
  finally show ?thesis by (simp add: u_def)
qed

lemma dbl_multiple:
  assumes "x \<noteq> 0" and "x = of_int k * pow2 c" and "max (binade x) (- 1022) - 52 \<le> c"
  shows "dbl x = x"
proof -
  define e where "e = max (binade x) (- 1022) - 52"
  have u: "0 < pow2 e" by (rule pow2_pos)
  from assms(3) have "0 \<le> c - e" by (simp add: e_def)
  then have "pow2 (c - e) = 2 ^ nat (c - e)" by (simp add: pow2_def)
  then have "pow2 c / pow2 e = of_int (2 ^ nat (c - e))" by (simp add: pow2_diff)
  then have "x / pow2 e = of_int (k * 2 ^ nat (c - e))"
    unfolding assms(2) by (simp only: times_divide_eq_right[symmetric] of_int_mult)
  then have "py_round (x / pow2 e) = k * 2 ^ nat (c - e)" "of_int (k * 2 ^ nat (c - e)) * pow2 e = x"
    using u by (simp_all only: py_round_int) (simp add: field_simps)
  then show ?thesis by (simp add: dbl_unfold[OF assms(1)] e_def[symmetric])
qed

lemma pow2_numeral: "pow2 (- 1022) = 1 / 2 ^ 1022" "pow2 (- 1074) = 1 / 2 ^ 1074"
  "pow2 53 = 2 ^ 53" "pow2 52 = 2 ^ 52" "pow2 0 = 1" "pow2 1 = 2" "pow2 (- 1) = 1 / 2"
  using pow2_neg[of 1022] pow2_neg[of 1074] pow2_nat[of 53] pow2_nat[of 52] pow2_nat[of 0]
    pow2_nat[of 1] pow2_neg[of 1]
  by simp_all

lemma binade_ge:
  assumes "pow2 c \<le> \<bar>x\<bar>"
  shows "c \<le> binade x"
proof -
  from assms pow2_pos[of c] have "x \<noteq> 0" by auto
  from binade_spec[OF this] assms have "pow2 c < pow2 (binade x + 1)" by linarith
  from pow2_less_D[OF this] show ?thesis by simp
qed

lemma binade_le:
  assumes "x \<noteq> 0" and "\<bar>x\<bar> \<le> pow2 c"
  shows "binade x \<le> c"
proof -
  from binade_spec[OF assms(1)] assms(2) have "pow2 (binade x) \<le> pow2 c" by linarith
  then show ?thesis by (rule pow2_le_D)
qed

lemma binade_less:
  assumes "x \<noteq> 0" and "\<bar>x\<bar> < pow2 c"
  shows "binade x < c"
proof -
  from binade_spec[OF assms(1)] assms(2) have "pow2 (binade x) < pow2 c" by linarith
  then show ?thesis by (rule pow2_less_D)
qed

lemma dbl_subnormal:
  assumes "\<bar>x\<bar> \<le> 1 / 2 ^ 1022"
  shows "\<bar>dbl x - x\<bar> \<le> 1 / 2 ^ 1075"
proof (cases "x = 0")
  case True
  then show ?thesis by (simp add: dbl_zero)
next
  case False
  from assms have "\<bar>x\<bar> \<le> pow2 (- 1022)" by (simp only: pow2_numeral)
  from binade_le[OF False this] have "max (binade x) (- 1022) - 52 = - 1074" by simp
  with dbl_error[OF False] have "\<bar>dbl x - x\<bar> \<le> pow2 (- 1074) / 2" by simp
  then show ?thesis by (simp add: pow2_numeral)
qed

lemma dbl_normal:
  assumes "1 / 2 ^ 1022 \<le> \<bar>x\<bar>"
  shows "\<bar>dbl x - x\<bar> \<le> \<bar>x\<bar> / 2 ^ 53"
proof -
  from assms have a: "pow2 (- 1022) \<le> \<bar>x\<bar>" by (simp only: pow2_numeral)
  with pow2_pos[of "- 1022"] have nz: "x \<noteq> 0" by auto
  from binade_ge[OF a] have m: "max (binade x) (- 1022) - 52 = binade x - 52" by simp
  from dbl_error[OF nz] have "\<bar>dbl x - x\<bar> \<le> pow2 (binade x - 52) / 2" by (simp only: m)
  also have "\<dots> = pow2 (binade x) / 2 ^ 53" by (simp add: pow2_diff pow2_numeral)
  also have "\<dots> \<le> \<bar>x\<bar> / 2 ^ 53"
    using binade_spec[OF nz] by (intro divide_right_mono) simp_all
  finally show ?thesis .
qed

lemma of_int_abs_ge_one: "k \<noteq> 0 \<Longrightarrow> (1::rat) \<le> \<bar>of_int k\<bar>"
proof -
  assume "k \<noteq> 0"
  then have "1 \<le> \<bar>k\<bar>" by simp
  then have "(of_int 1 :: rat) \<le> of_int \<bar>k\<bar>" by (simp only: of_int_le_iff)
  then show ?thesis by simp
qed

lemma dbl_int_small:
  assumes "\<bar>k\<bar> < 2 ^ 53"
  shows "dbl (of_int k) = of_int k"
proof (cases "k = 0")
  case True
  then show ?thesis by (simp add: dbl_zero)
next
  case False
  define x :: rat where "x = of_int k"
  have nz: "x \<noteq> 0" using False by (simp add: x_def)
  from of_int_abs_ge_one[OF False] have "pow2 0 \<le> \<bar>x\<bar>" by (simp add: x_def pow2_numeral)
  from binade_ge[OF this] have m: "max (binade x) (- 1022) = binade x" by simp
  from assms have "(of_int \<bar>k\<bar> :: rat) < of_int (2 ^ 53)" by (simp only: of_int_less_iff)
  then have "\<bar>x\<bar> < pow2 53" by (simp add: x_def pow2_numeral)
  from binade_less[OF nz this] m have "max (binade x) (- 1022) - 52 \<le> 0" by simp
  moreover have "x = of_int k * pow2 0" by (simp add: x_def pow2_numeral)
  ultimately have "dbl x = x" by (rule dbl_multiple[OF nz, rotated])
  then show ?thesis by (simp only: x_def)
qed

lemma dbl_pow53: "dbl (2 ^ 53) = 2 ^ 53"
proof -
  define x :: rat where "x = 2 ^ 53"
  have nz: "x \<noteq> 0" by (simp add: x_def)
  have "\<bar>x\<bar> \<le> pow2 53" by (simp add: x_def pow2_numeral)
  from binade_le[OF nz this] have "max (binade x) (- 1022) - 52 \<le> 1" by simp
  moreover have "x = of_int (2 ^ 52) * pow2 1" by (simp add: x_def pow2_numeral)
  ultimately have "dbl x = x" by (rule dbl_multiple[OF nz, rotated])
  then show ?thesis by (simp only: x_def)
qed

lemma dbl_int:
  assumes "\<bar>k\<bar> \<le> 2 ^ 53"
  shows "dbl (of_int k) = of_int k"
proof -
  from assms consider "\<bar>k\<bar> < 2 ^ 53" | "k = 2 ^ 53" | "k = - (2 ^ 53)" by linarith
  then show ?thesis
  proof cases
    case 1
    then show ?thesis by (rule dbl_int_small)
  next
    case 2
    then show ?thesis using dbl_pow53 by simp
  next
    case 3
    then have "dbl (of_int k) = dbl (- (2 ^ 53))" by simp
    also have "\<dots> = - (2 ^ 53)" by (simp only: dbl_minus dbl_pow53)
    finally show ?thesis using 3 by simp
  qed
qed

lemma dbl_half:
  assumes "\<bar>k\<bar> \<le> 2 ^ 53"
  shows "dbl (of_int k / 2) = of_int k / 2"
proof (cases "even k")
  case True
  then obtain j where k: "k = 2 * j" by (elim evenE)
  with assms have "\<bar>j\<bar> \<le> 2 ^ 53" by simp
  from dbl_int[OF this] show ?thesis by (simp add: k)
next
  case False
  then have k0: "k \<noteq> 0" by auto
  have "\<bar>k\<bar> \<noteq> 2 ^ 53"
  proof
    assume "\<bar>k\<bar> = 2 ^ 53"
    then have "even \<bar>k\<bar>" by simp
    with False show False by simp
  qed
  with assms have lt: "\<bar>k\<bar> < 2 ^ 53" by linarith
  define x :: rat where "x = of_int k / 2"
  have nz: "x \<noteq> 0" using k0 by (simp add: x_def)
  from of_int_abs_ge_one[OF k0] have "pow2 (- 1) \<le> \<bar>x\<bar>" by (simp add: x_def pow2_numeral)
  from binade_ge[OF this] have m: "max (binade x) (- 1022) = binade x" by simp
  from lt have "(of_int \<bar>k\<bar> :: rat) < of_int (2 ^ 53)" by (simp only: of_int_less_iff)
  then have "\<bar>x\<bar> < pow2 52" by (simp add: x_def pow2_numeral)
  from binade_less[OF nz this] m have "max (binade x) (- 1022) - 52 \<le> - 1" by simp
  moreover have "x = of_int k * pow2 (- 1)" by (simp add: x_def pow2_numeral)
  ultimately have "dbl x = x" by (rule dbl_multiple[OF nz, rotated])
  then show ?thesis by (simp only: x_def)
qed

lemma dbl_nonneg:
  assumes "0 \<le> x"
  shows "0 \<le> dbl x"
proof (cases "x = 0")
  case True
  then show ?thesis by (simp add: dbl_zero)
next
  case False
  define u where "u = pow2 (max (binade x) (- 1022) - 52)"
  have u: "0 < u" by (simp add: u_def pow2_pos)
  with assms have "0 \<le> x / u" by simp
  from py_round_mono[OF this] have "0 \<le> py_round (x / u)" using py_round_int[of 0] by simp
  then have "(0::rat) \<le> of_int (py_round (x / u))" by simp
  with u show ?thesis by (simp add: dbl_unfold[OF False] u_def[symmetric])
qed

text \<open>Within its binade a positive number is rounded to a double of the binade, or to the
  power of two that ends it.\<close>

lemma dbl_binade_bounds:
  assumes "0 < x" and e: "e = max (binade x) (- 1022)"
  shows "dbl x \<le> pow2 (e + 1)" and "binade x = e \<Longrightarrow> pow2 e \<le> dbl x"
proof -
  define u where "u = pow2 (e - 52)"
  have u: "0 < u" by (simp add: u_def pow2_pos)
  from assms(1) have nz: "x \<noteq> 0" by simp
  have d: "dbl x = of_int (py_round (x / u)) * u"
    by (simp add: dbl_unfold[OF nz] u_def e)
  have p53: "pow2 (e + 1) = 2 ^ 53 * u"
  proof -
    have "pow2 (e + 1) = pow2 (53 + (e - 52))" by (rule arg_cong[of _ _ pow2]) simp
    also have "\<dots> = pow2 53 * pow2 (e - 52)" by (rule pow2_add)
    finally show ?thesis by (simp add: pow2_numeral u_def)
  qed
  have p52: "pow2 e = 2 ^ 52 * u"
  proof -
    have "pow2 e = pow2 (52 + (e - 52))" by (rule arg_cong[of _ _ pow2]) simp
    also have "\<dots> = pow2 52 * pow2 (e - 52)" by (rule pow2_add)
    finally show ?thesis by (simp add: pow2_numeral u_def)
  qed
  from binade_spec[OF nz] assms(1) have "x < pow2 (binade x + 1)" by simp
  also have "\<dots> \<le> pow2 (e + 1)" by (rule pow2_mono) (simp add: e)
  finally have "x < 2 ^ 53 * u" by (simp only: p53)
  then have "x / u \<le> of_int (2 ^ 53)" using u by (simp add: pos_divide_le_eq)
  from py_round_mono[OF this] have "py_round (x / u) \<le> 2 ^ 53" by (simp only: py_round_int)
  then have "(of_int (py_round (x / u)) :: rat) \<le> of_int (2 ^ 53)" by (simp only: of_int_le_iff)
  then have "of_int (py_round (x / u)) * u \<le> 2 ^ 53 * u" using u by simp
  then show "dbl x \<le> pow2 (e + 1)" by (simp only: d p53)
  assume "binade x = e"
  with binade_spec[OF nz] assms(1) have "pow2 e \<le> x" by simp
  then have "2 ^ 52 * u \<le> x" by (simp only: p52)
  then have "of_int (2 ^ 52) \<le> x / u" using u by (simp add: pos_le_divide_eq)
  from py_round_mono[OF this] have "2 ^ 52 \<le> py_round (x / u)" by (simp only: py_round_int)
  then have "(of_int (2 ^ 52) :: rat) \<le> of_int (py_round (x / u))" by (simp only: of_int_le_iff)
  then have "2 ^ 52 * u \<le> of_int (py_round (x / u)) * u" using u by simp
  then show "pow2 e \<le> dbl x" by (simp only: d p52)
qed

lemma dbl_mono_pos:
  assumes "0 < x" and "x \<le> y"
  shows "dbl x \<le> dbl y"
proof -
  define a where "a = max (binade x) (- 1022)"
  define b where "b = max (binade y) (- 1022)"
  from assms have y: "0 < y" and nz: "x \<noteq> 0" "y \<noteq> 0" by simp_all
  from assms have "\<bar>x\<bar> \<le> \<bar>y\<bar>" by simp
  from binade_mono[OF nz(1) this] have ab: "a \<le> b" by (simp add: a_def b_def)
  show ?thesis
  proof (cases "a = b")
    case True
    define u where "u = pow2 (a - 52)"
    have u: "0 < u" by (simp add: u_def pow2_pos)
    from assms(2) u have "x / u \<le> y / u" by (simp add: divide_right_mono)
    from py_round_mono[OF this]
    have "(of_int (py_round (x / u)) :: rat) \<le> of_int (py_round (y / u))"
      by (simp only: of_int_le_iff)
    then have "of_int (py_round (x / u)) * u \<le> of_int (py_round (y / u)) * u" using u by simp
    moreover have "dbl x = of_int (py_round (x / u)) * u"
      by (simp add: dbl_unfold[OF nz(1)] u_def a_def)
    moreover have "dbl y = of_int (py_round (y / u)) * u"
      using True by (simp add: dbl_unfold[OF nz(2)] u_def b_def)
    ultimately show ?thesis by simp
  next
    case False
    with ab have lt: "a < b" by simp
    then have "- 1022 < b" by (simp add: a_def)
    then have bb: "binade y = b" by (simp add: b_def)
    from dbl_binade_bounds(1)[OF assms(1) a_def] have "dbl x \<le> pow2 (a + 1)" .
    also have "\<dots> \<le> pow2 b" by (rule pow2_mono) (use lt in simp)
    also have "\<dots> \<le> dbl y" by (rule dbl_binade_bounds(2)[OF y b_def bb])
    finally show ?thesis .
  qed
qed

lemma dbl_mono:
  assumes "x \<le> y"
  shows "dbl x \<le> dbl y"
proof -
  consider "0 < x" | "x \<le> 0" "0 \<le> y" | "y < 0" by linarith
  then show ?thesis
  proof cases
    case 1
    then show ?thesis using assms by (rule dbl_mono_pos)
  next
    case 2
    from 2(1) have "0 \<le> - x" by simp
    from dbl_nonneg[OF this] have "dbl x \<le> 0" by (simp add: dbl_minus)
    with dbl_nonneg[OF 2(2)] show ?thesis by linarith
  next
    case 3
    then have "0 < - y" by simp
    moreover from assms have "- y \<le> - x" by simp
    ultimately have "dbl (- y) \<le> dbl (- x)" by (rule dbl_mono_pos)
    then show ?thesis by (simp add: dbl_minus)
  qed
qed

lemma double_rounding_dbl: "double_rounding dbl"
  unfolding double_rounding_def rounding_def
  using dbl_mono dbl_int dbl_half dbl_normal dbl_subnormal by blast

section \<open>Claims\<close>

subsection \<open>C1: the position after a move\<close>

text \<open>
  C1 says that a move that runs to its end leaves the position at the target, and that
  a move stopped by the emergency stop leaves it at the start plus or minus the pulses
  sent. main-v2.py does both (\<open>move_steps_v2_tracks\<close>, \<open>move_to_v2_reaches_target\<close>),
  and main-v4.py does the first (\<open>move_thread_v4_completed\<close>). The stopped move of
  main-v4.py does not: \<^verbatim>\<open>_move_thread\<close> writes \<^verbatim>\<open>current_position\<close> only after the
  loop, and the stop returns from inside the loop (\<open>move_thread_v4_interrupted\<close>).
  Here the motor is asked to go from 0 to 10 and is stopped before the fourth step:
  three pulses are sent and the position still reads 0.
\<close>

theorem move_thread_v4_interrupted_loses_steps:
  "move_thread_v4 exact [Quiet, Quiet, Quiet, StopBeforeCheck] 1000 1000 (move_to_v4 10 motor4_init) =
     (Interrupted,
      \<lparr>current_position_v4 = 0, target_position_v4 = 10, is_moving_v4 = False,
       emergency_stop_v4 = True, threads_v4 = 1, dir_pin_v4 = True, pulses_v4 = 3\<rparr>)"
  by code_simp

subsection \<open>C2: the emergency stop halts the loop within one pulse\<close>



subsection \<open>C3: a move request while stopped\<close>

text \<open>
  C3 (as amended). A move request made while the emergency stop is in force sends no
  pulse and leaves the position alone. In main-v2.py \<^verbatim>\<open>move_to\<close> and
  \<^verbatim>\<open>move_relative\<close> return \<^verbatim>\<open>False\<close> and change nothing, so the state stays
  \<^verbatim>\<open>EMERGENCY_STOP\<close>. In main-v3.py \<^verbatim>\<open>move_steps\<close> changes one thing: it clears
  the flag, and so does \<^verbatim>\<open>move_to_position\<close> unless the target is the current
  position, in which case it changes nothing.
\<close>

theorem move_while_stopped:
  "(state w = EMERGENCY_STOP \<longrightarrow>
      move_to_v2 env target speed w = (Returns False, w) \<and>
      move_relative_v2 env steps speed w = (Returns False, w)) \<and>
   (emergency_stop_flag m \<longrightarrow>
      move_steps_v3 fl env' cb steps' s a m = (Refused, m\<lparr>emergency_stop_flag := False\<rparr>) \<and>
      (target' \<noteq> position_v3 m \<longrightarrow>
         move_to_position fl env' cb target' s a m =
           (Refused, m\<lparr>emergency_stop_flag := False\<rparr>)) \<and>
      (target' = position_v3 m \<longrightarrow> move_to_position fl env' cb target' s a m = (Completed, m)))"
  by (simp add: move_to_v2_def move_relative_v2_def move_steps_v3_def move_to_position_def)

theorem move_while_stopped_witness:
  "state (emergency_stop_v2 (world2_init [])) = EMERGENCY_STOP \<and>
   emergency_stop_flag (emergency_stop_v3 (world3_init [])) \<and>
   move_to_v2 [] 100 1000 (emergency_stop_v2 (world2_init [])) =
     (Returns False, emergency_stop_v2 (world2_init [])) \<and>
   pulses_v3 (snd (move_steps_v3 exact [] NoCallback 100 1000 1000
                     (emergency_stop_v3 (world3_init [])))) = 0 \<and>
   position_v3 (snd (move_to_position exact [] NoCallback 100 1000 1000
                       (emergency_stop_v3 (world3_init [])))) = 0"
  using move_while_stopped[of "emergency_stop_v2 (world2_init [])" "[]" 100 1000 100
      "emergency_stop_v3 (world3_init [])" exact "[]" NoCallback 100 1000 1000 100]
  by (simp add: emergency_stop_v2_def sleep_v2_def emergency_stop_v3_def sleep_v3_def
        world2_init_def world3_init_def)

text \<open>
  In main-v3.py the state does not stay stopped: the refused request lowers the flag,
  and the same request made again moves the motor its 100 steps.
\<close>

theorem move_steps_v3_clears_stop_counterexample:
  "\<not> emergency_stop_flag
       (snd (move_steps_v3 exact [] NoCallback 100 1000 1000 (emergency_stop_v3 (world3_init [])))) \<and>
   pulses_v3
     (snd (move_steps_v3 exact [] NoCallback 100 1000 1000
        (snd (move_steps_v3 exact [] NoCallback 100 1000 1000
           (emergency_stop_v3 (world3_init [])))))) = 100"
  by code_simp

subsection \<open>C4: the positions of a burst\<close>




subsection \<open>C5: the length of the acceleration phase\<close>

text \<open>
  C5 (as amended). For a move of \<open>n \<ge> 0\<close> steps at a positive speed \<open>s\<close> whose
  square is below \<open>2\<^sup>5\<^sup>3\<close> (a speed of at most 94906265 Hz) and a positive acceleration
  \<open>a\<close>, with the float quotient rounded to the nearest double, main-v3.py and
  main-v4.py take as the length of the acceleration phase the floor of
  \<open>min (n / 2) (s\<^sup>2 / (2 a))\<close>; it is 0 when that minimum is below 1; and it is never
  negative nor more than half the move, so that the part of the move between the two
  ramps has no negative length.
\<close>

theorem accel_phase_length:
  assumes "double_rounding fl" and "0 \<le> n" and "0 < s" and "s * s < 2 ^ 53" and "0 < a"
  shows "steps_to_accel_v3 fl n s a =
           Inr \<lfloor>min (of_int n / 2) ((of_int s)\<^sup>2 / (2 * of_int a)) :: rat\<rfloor> \<and>
         accel_steps_v4 fl n s a =
           Inr \<lfloor>min (of_int n / 2) ((of_int s)\<^sup>2 / (2 * of_int a)) :: rat\<rfloor> \<and>
         (min (of_int n / 2) ((of_int s)\<^sup>2 / (2 * of_int a)) < (1 :: rat) \<longrightarrow>
            steps_to_accel_v3 fl n s a = Inr 0 \<and> accel_steps_v4 fl n s a = Inr 0) \<and>
         (\<forall>k. steps_to_accel_v3 fl n s a = Inr k \<or> accel_steps_v4 fl n s a = Inr k \<longrightarrow>
            0 \<le> k \<and> 0 \<le> n - 2 * k)"
proof -
  let ?q = "(of_int s)\<^sup>2 / (2 * of_int a) :: rat"
  let ?k = "min (n div 2) ((s * s) div (2 * a))"
  have q: "?q = of_int (s * s) / of_int (2 * a)" by (simp add: power2_eq_square)
  have fq: "\<lfloor>?q\<rfloor> = (s * s) div (2 * a)" unfolding q by (rule floor_divide_of_int_eq)
  have fl: "\<lfloor>min (of_int n / 2) ?q\<rfloor> = ?k"
    unfolding floor_min_rat fq half_floor ..
  have pi: "py_int (fl (of_int (s * s) / of_int (2 * a))) = (s * s) div (2 * a)"
    by (rule ramp_quotient[OF assms(1,3,4,5)])
  have k0: "0 \<le> ?k" using assms by (simp add: pos_imp_zdiv_nonneg_iff)
  have "2 * (n div 2) \<le> n" by presburger
  moreover have "?k \<le> n div 2" by simp
  ultimately have k2: "2 * ?k \<le> n" by linarith
  have v3: "steps_to_accel_v3 fl n s a = Inr ?k"
    using assms k0 pi by (auto simp: steps_to_accel_v3_def py_truediv_def Let_def)
  have v4: "accel_steps_v4 fl n s a = Inr ?k"
    using assms pi by (simp add: accel_steps_v4_def py_truediv_def)
  have small: "min (of_int n / 2) ?q < (1 :: rat) \<Longrightarrow> ?k = 0"
  proof -
    assume "min (of_int n / 2) ?q < (1 :: rat)"
    then have "\<lfloor>min (of_int n / 2) ?q\<rfloor> < 1" by (simp add: floor_less_iff)
    with fl k0 show "?k = 0" by linarith
  qed
  show ?thesis
    unfolding v3 v4 fl using k0 k2 small by auto
qed

text \<open>
  2000 steps at 1000 Hz and an acceleration of 1000 ramp over 500 steps; a move of one step has
  no ramp.
\<close>

theorem accel_phase_length_witness:
  "double_rounding dbl \<and>
   steps_to_accel_v3 dbl 2000 1000 1000 = Inr 500 \<and>
   accel_steps_v4 dbl 2000 1000 1000 = Inr 500 \<and>
   steps_to_accel_v3 dbl 1 1000 1000 = Inr 0 \<and> accel_steps_v4 dbl 1 1000 1000 = Inr 0"
proof -
  have h: "\<lfloor>1 / 2 :: rat\<rfloor> = 0" by (simp add: floor_eq_iff)
  show ?thesis
    using accel_phase_length[OF double_rounding_dbl, of 2000 1000 1000]
      accel_phase_length[OF double_rounding_dbl, of 1 1000 1000] h double_rounding_dbl
    by simp
qed

text \<open>
  Beyond that speed the double nearest to the quotient can be the next integer. With
  the floats rounded as Python rounds them (\<open>dbl\<close>): 4100 steps at 94952793 Hz and an
  acceleration of 4398064828537 ramp over 1025 steps in main-v3.py, and the floor of
  the minimum is 1024; 2 steps at 134217729 Hz and an acceleration of 9007199388958721
  ramp over 1 step in main-v4.py, and the floor of the minimum is 0.
\<close>

theorem accel_phase_length_rounding_counterexample:
  "steps_to_accel_v3 dbl 4100 94952793 4398064828537 = Inr 1025 \<and>
   \<lfloor>min (4100 / 2) (94952793\<^sup>2 / (2 * 4398064828537)) :: rat\<rfloor> = 1024 \<and>
   accel_steps_v4 dbl 2 134217729 9007199388958721 = Inr 1 \<and>
   \<lfloor>min (2 / 2) (134217729\<^sup>2 / (2 * 9007199388958721)) :: rat\<rfloor> = 0"
  by code_simp

subsection \<open>C6: the delay of a ramp step\<close>

text \<open>
  C6 says that the speed of a ramp step scales linearly from near zero up to the
  requested speed at the end of the ramp, and that a floor on the speed keeps the delay
  from dividing by zero at step 0. Neither revision reaches the requested speed. Take
  2000 steps at 1000 Hz and an acceleration of 1000: the ramp is 500 steps long in both.

  In main-v3.py the speed of ramp step \<open>i\<close> is \<^verbatim>\<open>acceleration * i / speed_hz\<close>, here
  \<open>i\<close> Hz: the last step of the ramp runs at 499 Hz and the next step at 1000 Hz. (The
  floor is there: step 0 has the speed 0, and waits \<open>1 / max 1 0\<close>, one second.)

  In main-v4.py the same expression is used as a factor of the speed, which the code
  sets to 1.0 (``Full speed'') between the ramps: the factor is 499 at the last step of
  the ramp, whose delay is taken from 499 times the speed requested, and 1 at the next. There is
  no floor: at step 0 the factor is 0 and \<^verbatim>\<open>1 / (speed * current_speed)\<close> raises
  \<^verbatim>\<open>ZeroDivisionError\<close>, which a bare \<^verbatim>\<open>except\<close> turns into the delay of the full
  speed.
\<close>

theorem ramp_stops_short_of_speed:
  "steps_to_accel_v3 dbl 2000 1000 1000 = Inr 500 \<and>
   current_speed_v3 0 2000 500 1000 1000 = Inr 0 \<and>
   step_delay_v3 0 2000 500 1000 1000 = Inr 1 \<and>
   current_speed_v3 499 2000 500 1000 1000 = Inr 499 \<and>
   current_speed_v3 500 2000 500 1000 1000 = Inr 1000 \<and>
   accel_steps_v4 dbl 2000 1000 1000 = Inr 500 \<and>
   current_speed_v4 499 2000 500 1000 1000 = Inr 499 \<and>
   current_speed_v4 500 2000 500 1000 1000 = Inr 1 \<and>
   current_speed_v4 0 2000 500 1000 1000 = Inr 0 \<and>
   tried_delay_v4 1000 0 = Inl ZeroDivisionError"
  by code_simp

subsection \<open>C7: the end of a burst\<close>

text \<open>
  C7 says that a burst clears its flags and sets the progress to 0 however it ends.
  main-v2.py does, by its \<^verbatim>\<open>finally\<close> (\<open>perform_burst_cleans_up\<close>). main-v3.py
  resets the progress in the last statement of \<^verbatim>\<open>burst_thread\<close>, which an exception
  never reaches. Two bursts of 2 images from 0 to 10: with the acceleration 0 the
  second move raises \<^verbatim>\<open>ZeroDivisionError\<close> and the progress stays at 100 (and
  \<open>moving\<close> stays set); with a camera that fails at the first image the progress
  stays at 50.
\<close>

theorem burst_thread_leaves_progress:
  "burst_thread exact [] [] 0 10 2 1000 0 (world3_init []) =
     Some (Failed ZeroDivisionError,
           \<lparr>position_v3 = 0, target_position_v3 = 0, moving = True, emergency_stop_flag = False,
            burst_progress_v3 = 100, dir_pin_v3 = True, sleep_pin_v3 = True, pulses_v3 = 0,
            dirs_v3 = [''burst_001''], captured_v3 = [''burst_001/burst_0000.jpeg'']\<rparr>) \<and>
   burst_thread exact [] [(False, [], False)] 0 10 2 1000 1000 (world3_init []) =
     Some (Failed CaptureError,
           \<lparr>position_v3 = 0, target_position_v3 = 0, moving = False, emergency_stop_flag = False,
            burst_progress_v3 = 50, dir_pin_v3 = False, sleep_pin_v3 = False, pulses_v3 = 0,
            dirs_v3 = [''burst_001''], captured_v3 = []\<rparr>)"
  by code_simp

subsection \<open>C8: the counters of a burst\<close>

text \<open>
  C8 says that the count of images never exceeds the total and that the progress
  reported never goes down within one run. The count stays within the total in both
  revisions (\<open>perform_burst_counters\<close>, \<open>burst_thread_effect\<close>). In main-v2.py the
  progress never goes down either: a run finds it at 0, where the \<^verbatim>\<open>finally\<close> of
  every run leaves it, no frame saved lowers it (\<open>write_v2_progress\<close>), and the moves
  and the emergency stop do not touch it. In main-v3.py pass \<open>i\<close> of the loop writes
  \<open>progress_v3 fl i n\<close>, which ascends with \<open>i\<close>, so a run that finds the progress no
  higher than its first value never lowers it (\<open>burst_loop_v3_progress\<close>).

  But a run of main-v3.py that an exception ends leaves the progress where it was
  (C7), and the next run starts from there. A burst of 2 images from 0 to 10 with the
  acceleration 0 dies with the progress at 100. The first pass of the loop of the next
  burst, again of 2 images, then writes 50: the progress reported goes from 100 down
  to 50 within that run, which goes on to its end.
\<close>

theorem burst_progress_drops_after_failed_run:
  "map_option (\<lambda>(res, m'). (res, burst_progress_v3 m'))
     (burst_thread exact [] [] 0 10 2 1000 0 (world3_init [])) =
     Some (Failed ZeroDivisionError, 100) \<and>
   (case burst_step_v3 exact (False, [], True) ''burst_002'' 0 0 2 1000 1000
           ((snd (the (burst_thread exact [] [] 0 10 2 1000 0 (world3_init []))))
            \<lparr>dirs_v3 := [''burst_002'', ''burst_001'']\<rparr>) of
      (res, m') \<Rightarrow> (res, burst_progress_v3 m')) = (Completed, 50) \<and>
   map_option (\<lambda>(res, m'). (res, burst_progress_v3 m', dirs_v3 m', length (captured_v3 m')))
     (burst_thread exact [] [] 0 10 2 1000 1000
        (snd (the (burst_thread exact [] [] 0 10 2 1000 0 (world3_init []))))) =
     Some (Completed, 0, [''burst_002'', ''burst_001''], 3)"
  by code_simp

subsection \<open>C9: the directory of a burst\<close>

text \<open>
  C9 (as amended). The search for the directory of a burst always ends, and it ends at
  the first number, counted from where it starts, whose name \<^verbatim>\<open>burst_NNN\<close> does not
  exist. main-v3.py starts at 1, so it takes the lowest free name of all; main-v2.py
  starts at its global \<^verbatim>\<open>burst_counter\<close>, which it leaves at the number taken. A
  burst (of \<open>n \<ge> 2\<close> images) creates that one directory, and every file it writes is an
  image inside it; two names with different numbers never hold the same path, so no
  file of an earlier burst is written again. From a state without burst directories
  two bursts in a row take \<^verbatim>\<open>burst_001\<close> and then \<^verbatim>\<open>burst_002\<close>.
\<close>

theorem burst_directory_lowest_free:
  assumes "rounding fl" and "2 \<le> n"
  shows
    "(\<exists>k. next_burst_num ds c = Some k \<and> c \<le> k \<and> burst_dir_name k \<notin> set ds \<and>
        (\<forall>j. c \<le> j \<and> j < k \<longrightarrow> burst_dir_name j \<in> set ds)) \<and>
     (\<exists>k res m' new.
        next_burst_num (dirs_v3 m) 1 = Some k \<and>
        burst_thread fl env0 env start end n speed acc m = Some (res, m') \<and>
        dirs_v3 m' = burst_dir_name k # dirs_v3 m \<and>
        captured_v3 m' = new @ captured_v3 m \<and>
        set new \<subseteq> range (image_path (burst_dir_name k))) \<and>
     (\<exists>k res w' new.
        next_burst_num (dirs w) (burst_counter w) = Some k \<and>
        perform_burst fl env0' env' start end n speed w = Some (res, w') \<and>
        dirs w' = burst_dir_name k # dirs w \<and> burst_counter w' = k \<and>
        files w' = new @ files w \<and> fst ` set new \<subseteq> range (image_path (burst_dir_name k))) \<and>
     (image_path (burst_dir_name j) p = image_path (burst_dir_name k) q \<longrightarrow> j = k) \<and>
     ((\<forall>j. burst_dir_name j \<notin> set ds) \<longrightarrow>
        next_burst_num ds 1 = Some 1 \<and> next_burst_num (burst_dir_name 1 # ds) 1 = Some 2) \<and>
     burst_dir_name 1 = ''burst_001'' \<and> burst_dir_name 2 = ''burst_002''"
proof -
  have names: "burst_dir_name 1 = ''burst_001''" "burst_dir_name 2 = ''burst_002''"
    by code_simp+
  have v3: "\<exists>k res m' new.
        next_burst_num (dirs_v3 m) 1 = Some k \<and>
        burst_thread fl env0 env start end n speed acc m = Some (res, m') \<and>
        dirs_v3 m' = burst_dir_name k # dirs_v3 m \<and>
        captured_v3 m' = new @ captured_v3 m \<and>
        set new \<subseteq> range (image_path (burst_dir_name k))"
    using burst_thread_effect[OF assms(2), of m fl env0 env start "end" speed acc] by blast
  show ?thesis
    using next_burst_num_spec[of ds c] v3
      perform_burst_directory[of w fl env0' env' start "end" n speed]
      image_path_dir[of j p k q] clean_first_two[of ds] names
    by blast
qed

text \<open>Two bursts in a row in an empty working directory, in either revision.\<close>

theorem burst_directory_lowest_free_witness:
  "rounding exact \<and> (2 :: int) \<le> 2 \<and>
   map_option (\<lambda>(res, m'). (dirs_v3 m', captured_v3 m'))
     (burst_thread exact [] [] 0 10 2 1000 1000
        (snd (the (burst_thread exact [] [] 0 10 2 1000 1000 (world3_init []))))) =
     Some ([''burst_002'', ''burst_001''],
           [''burst_002/burst_0010.jpeg'', ''burst_002/burst_0000.jpeg'',
            ''burst_001/burst_0010.jpeg'', ''burst_001/burst_0000.jpeg'']) \<and>
   map_option (\<lambda>(res, w'). (dirs w', burst_counter w', map fst (files w')))
     (perform_burst exact ([], [Frame ''a'']) [] 0 10 2 1000
        (snd (the (perform_burst exact ([], [Frame ''a'']) [] 0 10 2 1000 (world2_init []))))) =
     Some ([''burst_002'', ''burst_001''], 2,
           [''burst_002/burst_0000.jpeg'', ''burst_001/burst_0000.jpeg''])"
proof -
  have r: "rounding exact" by (rule rounding_exact)
  have a: "map_option (\<lambda>(res, m'). (dirs_v3 m', captured_v3 m'))
     (burst_thread exact [] [] 0 10 2 1000 1000
        (snd (the (burst_thread exact [] [] 0 10 2 1000 1000 (world3_init []))))) =
     Some ([''burst_002'', ''burst_001''],
           [''burst_002/burst_0010.jpeg'', ''burst_002/burst_0000.jpeg'',
            ''burst_001/burst_0010.jpeg'', ''burst_001/burst_0000.jpeg''])"
    by code_simp
  have b: "map_option (\<lambda>(res, w'). (dirs w', burst_counter w', map fst (files w')))
     (perform_burst exact ([], [Frame ''a'']) [] 0 10 2 1000
        (snd (the (perform_burst exact ([], [Frame ''a'']) [] 0 10 2 1000 (world2_init []))))) =
     Some ([''burst_002'', ''burst_001''], 2,
           [''burst_002/burst_0000.jpeg'', ''burst_001/burst_0000.jpeg''])"
    by code_simp
  note t = burst_directory_lowest_free[OF r, of 2 "[]" 1]
  from r a b t show ?thesis by simp
qed

text \<open>
  main-v2.py after two bursts has its counter at 2. If \<^verbatim>\<open>burst_001\<close> is then
  removed, the third burst takes \<^verbatim>\<open>burst_003\<close>, not the lowest free name.
\<close>

theorem burst_counter_skips_counterexample:
  "burst_counter
     (snd (the (perform_burst exact ([], []) [] 0 10 2 1000
        (snd (the (perform_burst exact ([], []) [] 0 10 2 1000 (world2_init []))))))) = 2 \<and>
   map_option (\<lambda>(res, w'). dirs w')
     (perform_burst exact ([], []) [] 0 10 2 1000
        ((snd (the (perform_burst exact ([], []) [] 0 10 2 1000
            (snd (the (perform_burst exact ([], []) [] 0 10 2 1000 (world2_init [])))))))
         \<lparr>dirs := [''burst_002'']\<rparr>)) =
     Some [''burst_003'', ''burst_002''] \<and>
   burst_dir_name 1 \<notin> set [''burst_002'']"
  by code_simp

subsection \<open>C10: a relative move in main-v4.py\<close>

text \<open>
  C10 (as amended). In main-v4.py a relative move is computed from the target position,
  not from the current position: when the emergency-stop flag is clear,
  \<^verbatim>\<open>move(steps, direction)\<close> sets the target to the old target plus or minus \<open>steps\<close>
  whatever the current position is, and leaves the current position alone. When the
  flag is set, as it is after a stopped move, the request changes nothing.
\<close>

theorem move_v4_relative_to_target:
  "(\<not> emergency_stop_v4 m \<longrightarrow>
      target_position_v4 (move_v4 steps ''positive'' m) = target_position_v4 m + steps \<and>
      target_position_v4 (move_v4 steps ''negative'' m) = target_position_v4 m - steps \<and>
      current_position_v4 (move_v4 steps d m) = current_position_v4 m) \<and>
   (emergency_stop_v4 m \<longrightarrow> move_v4 steps d m = m)"
  by (simp add: move_v4_def move_to_v4_def Let_def)

text \<open>
  With a move from 0 to 10 in flight, 5 steps forward aim at 15 and 5 steps back at 5.
\<close>

theorem move_v4_relative_to_target_witness:
  "\<not> emergency_stop_v4 (move_to_v4 10 motor4_init) \<and>
   current_position_v4 (move_to_v4 10 motor4_init) = 0 \<and>
   target_position_v4 (move_v4 5 ''positive'' (move_to_v4 10 motor4_init)) = 15 \<and>
   target_position_v4 (move_v4 5 ''negative'' (move_to_v4 10 motor4_init)) = 5 \<and>
   emergency_stop_v4 (emergency_stop_now (move_to_v4 10 motor4_init)) \<and>
   move_v4 5 ''positive'' (emergency_stop_now (move_to_v4 10 motor4_init)) =
     emergency_stop_now (move_to_v4 10 motor4_init)"
  using move_v4_relative_to_target[of "move_to_v4 10 motor4_init" 5 "''positive''"]
    move_v4_relative_to_target[of "emergency_stop_now (move_to_v4 10 motor4_init)" 5
      "''positive''"]
  by (simp add: move_to_v4_def motor4_init_def emergency_stop_now_def)

text \<open>
  After the move from 0 to 10 was stopped at its fourth step, the position reads 0 and
  the target 10; a relative move of 5 steps does not set the target to 15.
\<close>

theorem move_v4_after_interrupt_counterexample:
  "current_position_v4
     (snd (move_thread_v4 exact [Quiet, Quiet, Quiet, StopBeforeCheck] 1000 1000
        (move_to_v4 10 motor4_init))) = 0 \<and>
   target_position_v4
     (snd (move_thread_v4 exact [Quiet, Quiet, Quiet, StopBeforeCheck] 1000 1000
        (move_to_v4 10 motor4_init))) = 10 \<and>
   target_position_v4
     (move_v4 5 ''positive''
        (snd (move_thread_v4 exact [Quiet, Quiet, Quiet, StopBeforeCheck] 1000 1000
           (move_to_v4 10 motor4_init)))) \<noteq> 10 + 5"
  by code_simp

end
